theory Spec2Isabelle
  imports Main "HOL-Library.AList" "HOL-Library.Sublist"
begin

section \<open>Strings and paths\<close>

text \<open>
  Python's \<open>str.endswith\<close> for a single suffix: the suffix is no longer than the
  string and the last characters of the string are the suffix.
\<close>

definition endswith :: "string \<Rightarrow> string \<Rightarrow> bool" where
  "endswith s suf = (length suf \<le> length s \<and> drop (length s - length suf) s = suf)"

text \<open>Python's \<open>str.startswith\<close> for a single prefix.\<close>

definition startswith :: "string \<Rightarrow> string \<Rightarrow> bool" where
  "startswith s pre = (take (length pre) s = pre)"

text \<open>
  \<open>os.path.join\<close> on a POSIX system, for two arguments: an absolute second argument
  replaces the first, an empty first argument or one that ends in a slash takes the
  second without a separator, otherwise a slash is put between the two. The call with
  more arguments folds this from the left, as \<open>posixpath.join\<close> does.
\<close>

definition os_path_join :: "string \<Rightarrow> string \<Rightarrow> string" where
  "os_path_join a b =
     (if startswith b ''/'' then b
      else if a = [] \<or> endswith a ''/'' then a @ b
      else a @ ''/'' @ b)"

section \<open>Errors\<close>

text \<open>
  The ways a call of this module ends without a value: \<open>mx.abort\<close> with a message
  (the build tool exits), an \<open>OSError\<close> that \<open>mkdir_p\<close> lets through, and the abort
  of \<open>mx.run\<close> on a subprocess that does not exit with status 0.
\<close>

datatype errno = EEXIST | ENOENT | ENOTDIR | ENAMETOOLONG | ENOSPC | EACCES

datatype error = Abort string | OSError errno | CompileFailure "string list" int

section \<open>remove_extension\<close>

text \<open>
  \<^verbatim>\<open>
  def remove_extension(filename):
      if filename.endswith(".c"):
          return filename[:-2]
      else:
          mx.abort("Unknown extension: " + filename)
  \<close>
  The slice \<open>filename[:-2]\<close> keeps the first \<open>len - 2\<close> characters (none when the
  string is shorter than two characters, which is what truncating subtraction gives).
\<close>

definition remove_extension :: "string \<Rightarrow> error + string" where
  "remove_extension filename =
     (if endswith filename ''.c'' then Inr (take (length filename - 2) filename)
      else Inl (Abort (''Unknown extension: '' @ filename)))"

section \<open>The file system\<close>

text \<open>
  A file system is a tree of nodes. A directory lists its entries by name, in the order
  in which the directory is read. Besides regular files and directories there are
  special files (a FIFO, a socket, a device; \<open>Fifo\<close> stands for all of them) and
  symbolic links. A link carries the node that its target resolves to at the time of
  the call, or nothing when it dangles. Path strings are resolved from the top of the
  tree, component by component. \<open>Locked\<close> is a directory that the caller may
  neither read nor search: it is seen to be a directory, and nothing in it can be
  reached. Other combinations of permissions are outside the model, and a link holds a
  copy of its target, so that a directory made through a link shows under the link only.
\<close>

datatype node = File | Fifo | Symlink "node option" | Locked | Dir "(string \<times> node) list"

fun split_sep :: "char \<Rightarrow> string \<Rightarrow> string list" where
  "split_sep c [] = [[]]"
| "split_sep c (x # xs) =
     (if x = c then [] # split_sep c xs
      else (case split_sep c xs of
              [] \<Rightarrow> [[x]]
            | w # ws \<Rightarrow> (x # w) # ws))"

text \<open>
  The components of a path string, from the top of the tree: an empty component (a
  doubled or trailing slash) and the component \<open>.\<close> are skipped, and the component
  \<open>..\<close> cancels the component before it (at the top it is skipped), which is where
  the system goes when the component before it is a directory and not a link. Paths
  in which \<open>.\<close> or \<open>..\<close> follows a component that is missing, is not a directory
  or is a link are outside the model.
\<close>

definition path_step :: "string list \<Rightarrow> string \<Rightarrow> string list" where
  "path_step stack c =
     (if c = [] \<or> c = ''.'' then stack
      else if c = ''..'' then butlast stack
      else stack @ [c])"

definition components :: "string \<Rightarrow> string list" where
  "components path = foldl path_step [] (split_sep (CHR ''/'') path)"

text \<open>What a node is once symbolic links are followed, as \<open>stat\<close> sees it.\<close>

fun follow :: "node \<Rightarrow> node option" where
  "follow (Symlink None) = None"
| "follow (Symlink (Some n)) = follow n"
| "follow n = Some n"

text \<open>
  Path resolution as \<open>stat\<close> does it: links are followed at every component and at the
  end of the path.
\<close>

fun lookup :: "node \<Rightarrow> string list \<Rightarrow> node option" where
  "lookup (Symlink None) ps = None"
| "lookup (Symlink (Some n)) ps = lookup n ps"
| "lookup n [] = Some n"
| "lookup (Dir es) (p # ps) =
     (case map_of es p of None \<Rightarrow> None | Some n \<Rightarrow> lookup n ps)"
| "lookup n (p # ps) = None"

text \<open>
  Going down from a node through directories only, following no link: the entries that
  a walk without \<open>followlinks\<close> can reach.
\<close>

fun descend :: "node \<Rightarrow> string list \<Rightarrow> node option" where
  "descend n [] = Some n"
| "descend (Dir es) (p # ps) =
     (case map_of es p of None \<Rightarrow> None | Some n \<Rightarrow> descend n ps)"
| "descend n (p # ps) = None"

text \<open>
  Resolving a path string. The empty string names nothing (the system calls fail with
  \<open>ENOENT\<close> on it).
\<close>

definition resolve :: "node \<Rightarrow> string \<Rightarrow> node option" where
  "resolve fs path = (if path = [] then None else lookup fs (components path))"

text \<open>\<open>DirEntry.is_dir()\<close> and \<open>os.path.isdir\<close>: both follow symbolic links.\<close>

definition is_dir :: "node \<Rightarrow> bool" where
  "is_dir n = (case follow n of Some (Dir es) \<Rightarrow> True | Some Locked \<Rightarrow> True | _ \<Rightarrow> False)"

definition os_path_isdir :: "node \<Rightarrow> string \<Rightarrow> bool" where
  "os_path_isdir fs path =
     (case resolve fs path of Some (Dir es) \<Rightarrow> True | Some Locked \<Rightarrow> True | _ \<Rightarrow> False)"

text \<open>
  A well-formed tree: within a directory the names are distinct, and a name is not
  empty, is not \<open>.\<close> or \<open>..\<close>, and holds no slash.
\<close>

definition valid_name :: "string \<Rightarrow> bool" where
  "valid_name nm = (nm \<noteq> [] \<and> nm \<noteq> ''.'' \<and> nm \<noteq> ''..'' \<and> CHR ''/'' \<notin> set nm)"

fun wf_node :: "node \<Rightarrow> bool"
  and wf_entries :: "(string \<times> node) list \<Rightarrow> bool" where
  "wf_node File = True"
| "wf_node Fifo = True"
| "wf_node Locked = True"
| "wf_node (Symlink None) = True"
| "wf_node (Symlink (Some n)) = wf_node n"
| "wf_node (Dir es) = (distinct (map fst es) \<and> wf_entries es)"
| "wf_entries [] = True"
| "wf_entries (e # es) = (valid_name (fst e) \<and> wf_node (snd e) \<and> wf_entries es)"

subsection \<open>os.makedirs and mkdir_p\<close>

text \<open>
  The system call \<open>mkdir\<close> can refuse to make a directory for reasons that the tree
  does not show: the name is too long, the device is full, the caller has no
  permission. Which directories are refused is given from outside, as a function of the
  components of the path of the new directory.
\<close>

datatype refusal = Name_too_long | No_space | Permission_denied

fun errno_of :: "refusal \<Rightarrow> errno" where
  "errno_of Name_too_long = ENAMETOOLONG"
| "errno_of No_space = ENOSPC"
| "errno_of Permission_denied = EACCES"

type_synonym refusals = "string list \<Rightarrow> refusal option"

text \<open>
  \<open>os.makedirs(path)\<close> makes every missing directory above \<open>path\<close>, from the top
  down, and then \<open>path\<close> itself. It raises \<open>EEXIST\<close> when \<open>path\<close> exists already
  (whatever it is), \<open>ENOTDIR\<close> when a component above it is not a directory,
  \<open>ENOENT\<close> when a component above it is a dangling link and on the empty string,
  \<open>EACCES\<close> when a component above it is a locked directory, and the error of the
  first \<open>mkdir\<close> that is refused. The directories made before the
  error stay, so the result is the error, if any, together with the tree as the call
  leaves it. A new directory is listed last in its parent.

  \<open>mkdir_chain\<close> is the content of a directory just made at the path \<open>pre\<close>, after the
  remaining components have been made below it as far as \<open>mkdir\<close> allows.
\<close>

fun mkdir_chain :: "refusals \<Rightarrow> string list \<Rightarrow> string list \<Rightarrow> errno option \<times> node" where
  "mkdir_chain deny pre [] = (None, Dir [])"
| "mkdir_chain deny pre (p # ps) =
     (case deny (pre @ [p]) of
        Some r \<Rightarrow> (Some (errno_of r), Dir [])
      | None \<Rightarrow>
          (case mkdir_chain deny (pre @ [p]) ps of
             (e, n) \<Rightarrow> (e, Dir [(p, n)])))"

fun makedirs_at :: "refusals \<Rightarrow> string list \<Rightarrow> node \<Rightarrow> string list \<Rightarrow> errno option \<times> node" where
  "makedirs_at deny pre n [] = (Some EEXIST, n)"
| "makedirs_at deny pre (Dir es) (p # ps) =
     (case map_of es p of
        None \<Rightarrow>
          (case deny (pre @ [p]) of
             Some r \<Rightarrow> (Some (errno_of r), Dir es)
           | None \<Rightarrow>
               (case mkdir_chain deny (pre @ [p]) ps of
                  (e, n) \<Rightarrow> (e, Dir (AList.update p n es))))
      | Some n \<Rightarrow>
          (case makedirs_at deny (pre @ [p]) n ps of
             (e, n') \<Rightarrow> (e, Dir (AList.update p n' es))))"
| "makedirs_at deny pre (Symlink (Some n)) (p # ps) =
     (case makedirs_at deny pre n (p # ps) of
        (e, n') \<Rightarrow> (e, Symlink (Some n')))"
| "makedirs_at deny pre (Symlink None) (p # ps) = (Some ENOENT, Symlink None)"
| "makedirs_at deny pre File (p # ps) = (Some ENOTDIR, File)"
| "makedirs_at deny pre Fifo (p # ps) = (Some ENOTDIR, Fifo)"
| "makedirs_at deny pre Locked (p # ps) = (Some EACCES, Locked)"

definition os_makedirs :: "refusals \<Rightarrow> node \<Rightarrow> string \<Rightarrow> errno option \<times> node" where
  "os_makedirs deny fs path =
     (if path = [] then (Some ENOENT, fs) else makedirs_at deny [] fs (components path))"

text \<open>
  \<^verbatim>\<open>
  def mkdir_p(path):
      try:
          os.makedirs(path)
      except OSError as exc:
          if exc.errno == errno.EEXIST and os.path.isdir(path):
              pass
          else:
              raise
  \<close>
  The result is the error that \<open>mkdir_p\<close> raises, if any, and the tree it leaves.
\<close>

definition mkdir_p :: "refusals \<Rightarrow> node \<Rightarrow> string \<Rightarrow> error option \<times> node" where
  "mkdir_p deny fs path =
     (case os_makedirs deny fs path of
        (None, fs') \<Rightarrow> (None, fs')
      | (Some e, fs') \<Rightarrow>
          if e = EEXIST \<and> os_path_isdir fs' path then (None, fs')
          else (Some (OSError e), fs'))"

subsection \<open>os.walk\<close>

text \<open>
  \<open>os.walk(top)\<close>, top down and with its default arguments. Reading the directory
  \<open>top\<close> follows a link at \<open>top\<close>. The walk yields the triple of the path of the
  directory, the names of the entries that are directories (links to directories
  among them) and the names of all its other entries (regular files, special files,
  links to anything else, dangling links); then it walks, under the joined path, each
  entry that is a directory and not a link. An error of reading a directory (\<open>top\<close>
  is missing or is not a directory, or the directory is locked) is swallowed: the walk
  of it is empty.
\<close>

definition dirnames :: "(string \<times> node) list \<Rightarrow> string list" where
  "dirnames es = map fst (filter (\<lambda>e. is_dir (snd e)) es)"

definition filenames :: "(string \<times> node) list \<Rightarrow> string list" where
  "filenames es = map fst (filter (\<lambda>e. \<not> is_dir (snd e)) es)"

fun walk :: "string \<Rightarrow> (string \<times> node) list \<Rightarrow> (string \<times> string list \<times> string list) list"
  and walk_entries :: "string \<Rightarrow> (string \<times> node) list \<Rightarrow> (string \<times> string list \<times> string list) list" where
  "walk top_dir es = (top_dir, dirnames es, filenames es) # walk_entries top_dir es"
| "walk_entries top_dir [] = []"
| "walk_entries top_dir (e # es) =
     (case snd e of
        Dir sub \<Rightarrow> walk (os_path_join top_dir (fst e)) sub @ walk_entries top_dir es
      | _ \<Rightarrow> walk_entries top_dir es)"

definition walk_node :: "string \<Rightarrow> node option \<Rightarrow> (string \<times> string list \<times> string list) list" where
  "walk_node top_dir r = (case r of Some (Dir es) \<Rightarrow> walk top_dir es | _ \<Rightarrow> [])"

definition os_walk :: "node \<Rightarrow> string \<Rightarrow> (string \<times> string list \<times> string list) list" where
  "os_walk fs top_dir = walk_node top_dir (resolve fs top_dir)"

section \<open>GraalWasmSourceFileProject\<close>

text \<open>
  The fields of a project that this module reads: its directory, its name, its
  \<open>subDir\<close>, and the value of the build tool's \<open>get_output_base()\<close>.
\<close>

record project =
  dir :: string
  name :: string
  subDir :: string
  output_base :: string

definition getSourceDir :: "project \<Rightarrow> string" where
  "getSourceDir p = os_path_join (os_path_join (os_path_join (dir p) ''src'') (name p)) (subDir p)"

definition getOutputDir :: "project \<Rightarrow> string" where
  "getOutputDir p = os_path_join (output_base p) (name p)"

text \<open>
  \<^verbatim>\<open>
  def getSources(self):
      for root, dirs, files in os.walk(self.getSourceDir()):
          for filename in files:
              if filename.endswith(".c"):
                  yield (root, filename)
  \<close>
  \<open>sources_in\<close> is the body of the two loops, over the triples of a walk.
\<close>

definition sources_in :: "(string \<times> string list \<times> string list) list \<Rightarrow> (string \<times> string) list" where
  "sources_in w =
     concat (map (\<lambda>(root, dirs, files).
                    map (\<lambda>filename. (root, filename))
                        (filter (\<lambda>filename. endswith filename ''.c'') files)) w)"

definition getSources :: "project \<Rightarrow> node \<Rightarrow> (string \<times> string) list" where
  "getSources p fs = sources_in (os_walk fs (getSourceDir p))"

text \<open>
  \<^verbatim>\<open>
  def getResults(self):
      output_dir = self.getOutputDir()
      for root, filename in self.getSources():
          yield os.path.join(output_dir, remove_extension(filename) + ".wasm")
  \<close>
  The generator stops at the first abort of \<open>remove_extension\<close>.
\<close>

fun results_of :: "string \<Rightarrow> (string \<times> string) list \<Rightarrow> error + string list" where
  "results_of output_dir [] = Inr []"
| "results_of output_dir (src # srcs) =
     (case remove_extension (snd src) of
        Inl e \<Rightarrow> Inl e
      | Inr base \<Rightarrow>
          (case results_of output_dir srcs of
             Inl e \<Rightarrow> Inl e
           | Inr rs \<Rightarrow> Inr (os_path_join output_dir (base @ ''.wasm'') # rs)))"

definition getResults :: "project \<Rightarrow> node \<Rightarrow> error + string list" where
  "getResults p fs = results_of (getOutputDir p) (getSources p fs)"

section \<open>GraalWasmSourceFileTask\<close>

text \<open>
  The environment maps a variable to its value. An external process is known by its
  exit status alone, which may depend on the commands run before it and on its own
  command line; a process that cannot be started counts as a status other than 0. The
  compiler is taken not to change the source tree while the build enumerates it.
\<close>

type_synonym environment = "string \<rightharpoonup> string"

type_synonym process = "string list list \<Rightarrow> string list \<Rightarrow> int"

text \<open>
  Modelled from the spec: \<open>mx.run\<close> of the build tool, which is not part of this
  module. It runs the command and waits for it to exit; a status other than 0 aborts the
  build.
\<close>

definition mx_run :: "process \<Rightarrow> string list list \<Rightarrow> string list \<Rightarrow> error option" where
  "mx_run proc hist cmd =
     (if proc hist cmd = 0 then None else Some (CompileFailure cmd (proc hist cmd)))"

text \<open>
  What a build leaves behind: how it ended, the file system, the command lines it has
  run in order, and the lines it has logged.
\<close>

record outcome =
  failure :: "error option"
  fs_after :: node
  invoked :: "string list list"
  logged :: "string list"

text \<open>The command line of one source unit, as the loop of \<open>build\<close> puts it together.\<close>

definition compile_cmd :: "string \<Rightarrow> string \<Rightarrow> string \<Rightarrow> string \<Rightarrow> string \<Rightarrow> string list" where
  "compile_cmd emcc_cmd output_dir root filename base =
     [emcc_cmd] @ [''-Os''] @
     [os_path_join root filename, ''-o'', os_path_join output_dir (base @ ''.js'')]"

fun compile_all ::
  "process \<Rightarrow> string \<Rightarrow> string \<Rightarrow> string list list \<Rightarrow> (string \<times> string) list
     \<Rightarrow> error option \<times> string list list" where
  "compile_all proc emcc_cmd output_dir hist [] = (None, hist)"
| "compile_all proc emcc_cmd output_dir hist (src # srcs) =
     (case remove_extension (snd src) of
        Inl e \<Rightarrow> (Some e, hist)
      | Inr base \<Rightarrow>
          (let cmd = compile_cmd emcc_cmd output_dir (fst src) (snd src) base
           in case mx_run proc hist cmd of
                Some e \<Rightarrow> (Some e, hist @ [cmd])
              | None \<Rightarrow> compile_all proc emcc_cmd output_dir (hist @ [cmd]) srcs))"

text \<open>
  \<^verbatim>\<open>
  def build(self):
      source_dir = self.subject.getSourceDir()
      output_dir = self.subject.getOutputDir()
      mkdir_p(output_dir)
      emcc_dir = mx.get_env("EMCC_DIR", None)
      if not emcc_dir:
          mx.abort("No EMCC_DIR specified - the source programs will not be compiled to .wat and .wasm.")
      mx.log("Building files from the source dir: " + source_dir)
      emcc_cmd = os.path.join(emcc_dir, "emcc")
      flags = ["-Os"]
      for root, filename in self.subject.getSources():
          path = os.path.join(root, filename)
          output_path = os.path.join(output_dir, remove_extension(filename) + ".js")
          mx.run([emcc_cmd] + flags + [path, "-o", output_path])
  \<close>
  \<open>not emcc_dir\<close> holds of a variable that is unset and of one that is set to the empty
  string.
\<close>

definition no_emcc_dir_message :: string where
  "no_emcc_dir_message =
     ''No EMCC_DIR specified - the source programs will not be compiled to .wat and .wasm.''"

definition build :: "project \<Rightarrow> environment \<Rightarrow> process \<Rightarrow> refusals \<Rightarrow> node \<Rightarrow> outcome" where
  "build p env proc deny fs =
     (let source_dir = getSourceDir p;
          output_dir = getOutputDir p
      in case mkdir_p deny fs output_dir of
           (Some e, fs1) \<Rightarrow> \<lparr>failure = Some e, fs_after = fs1, invoked = [], logged = []\<rparr>
         | (None, fs1) \<Rightarrow>
             (case env ''EMCC_DIR'' of
                None \<Rightarrow>
                  \<lparr>failure = Some (Abort no_emcc_dir_message), fs_after = fs1,
                   invoked = [], logged = []\<rparr>
              | Some emcc_dir \<Rightarrow>
                  if emcc_dir = [] then
                    \<lparr>failure = Some (Abort no_emcc_dir_message), fs_after = fs1,
                     invoked = [], logged = []\<rparr>
                  else
                    (let emcc_cmd = os_path_join emcc_dir ''emcc'';
                         r = compile_all proc emcc_cmd output_dir [] (getSources p fs1)
                     in \<lparr>failure = fst r, fs_after = fs1, invoked = snd r,
                         logged = [''Building files from the source dir: '' @ source_dir]\<rparr>)))"

section \<open>Properties of endswith and remove_extension\<close>

lemma endswith_iff_append: "endswith s suf \<longleftrightarrow> (\<exists>b. s = b @ suf)"
proof
  assume "endswith s suf"
  then have "s = take (length s - length suf) s @ suf"
    by (metis append_take_drop_id endswith_def)
  then show "\<exists>b. s = b @ suf" by blast
next
  assume "\<exists>b. s = b @ suf"
  then show "endswith s suf" by (auto simp: endswith_def)
qed

lemma endswith_append_same [simp]: "endswith (b @ suf) suf"
  by (simp add: endswith_def)

lemma endswith_suffix: "endswith s suf \<longleftrightarrow> suffix suf s"
  by (auto simp: endswith_iff_append suffix_def)

lemma remove_extension_append: "remove_extension (b @ ''.c'') = Inr b"
  by (simp add: remove_extension_def)

text \<open>
  C3. A file name that ends in \<open>.c\<close> is accepted: \<open>remove_extension\<close> returns a value,
  which is the name without its last two characters, so the name is that value followed
  by \<open>.c\<close>.
\<close>

theorem remove_extension_strips_suffix:
  assumes "endswith filename ''.c''"
  shows "remove_extension filename = Inr (take (length filename - 2) filename)
         \<and> length (take (length filename - 2) filename) = length filename - 2
         \<and> filename = take (length filename - 2) filename @ ''.c''"
proof -
  from assms obtain b where b: "filename = b @ ''.c''"
    using endswith_iff_append by blast
  show ?thesis unfolding b by (simp add: remove_extension_def)
qed

theorem remove_extension_strips_suffix_witness:
  "endswith ''fib.c'' ''.c'' \<and> remove_extension ''fib.c'' = Inr ''fib''"
  using remove_extension_strips_suffix [of "''fib.c''"]
  by (simp add: endswith_def)

text \<open>
  C4. A file name that does not end in \<open>.c\<close> is rejected: \<open>remove_extension\<close> returns
  no value and aborts the build with the message for an unknown extension.
\<close>

theorem remove_extension_rejects_other:
  assumes "\<not> endswith filename ''.c''"
  shows "remove_extension filename = Inl (Abort (''Unknown extension: '' @ filename))"
  using assms by (simp add: remove_extension_def)

theorem remove_extension_rejects_other_witness:
  "\<not> endswith ''foo.h'' ''.c''
   \<and> remove_extension ''foo.h'' = Inl (Abort ''Unknown extension: foo.h'')
   \<and> \<not> endswith ''foo'' ''.c''
   \<and> remove_extension ''foo'' = Inl (Abort ''Unknown extension: foo'')"
  using remove_extension_rejects_other [of "''foo.h''"]
    remove_extension_rejects_other [of "''foo''"]
  by (simp add: endswith_def)

lemma endswith_cc: "endswith (b @ ''.c'') ''.c.c'' \<longleftrightarrow> endswith b ''.c''"
  (is "?L = ?R")
proof
  assume ?L
  then obtain d where "b @ ''.c'' = d @ ''.c.c''" using endswith_iff_append by blast
  then have "b = d @ ''.c''" by simp
  then show ?R by simp
next
  assume ?R
  then obtain d where "b = d @ ''.c''" using endswith_iff_append by blast
  then have "b @ ''.c'' = d @ ''.c.c''" by simp
  then show ?L using endswith_iff_append by blast
qed

text \<open>
  C5, as stated, fails: the name \<open>a.c.c\<close> ends in \<open>.c\<close>, its base \<open>a.c\<close> ends in
  \<open>.c\<close> again, and \<open>remove_extension\<close> succeeds on the base too.
\<close>

theorem remove_extension_twice_counterexample:
  "endswith ''a.c.c'' ''.c'' \<and> remove_extension ''a.c.c'' = Inr ''a.c''
   \<and> endswith ''a.c'' ''.c'' \<and> remove_extension ''a.c'' = Inr ''a''"
  by (simp add: remove_extension_def endswith_def)

text \<open>
  C5, amended. For a file name that ends in \<open>.c\<close>, applying \<open>remove_extension\<close> to
  its own result aborts with the unknown-extension message exactly when the name does
  not end in \<open>.c.c\<close>; on a name that ends in \<open>.c.c\<close> the second application succeeds
  and strips the next \<open>.c\<close>.
\<close>

theorem remove_extension_twice:
  assumes "endswith filename ''.c''"
  shows "\<exists>base. remove_extension filename = Inr base
           \<and> (if endswith filename ''.c.c''
              then remove_extension base = Inr (take (length filename - 4) filename)
              else remove_extension base = Inl (Abort (''Unknown extension: '' @ base)))"
proof -
  from assms obtain b where b: "filename = b @ ''.c''"
    using endswith_iff_append by blast
  have first: "remove_extension filename = Inr b"
    unfolding b by (rule remove_extension_append)
  show ?thesis
  proof (cases "endswith b ''.c''")
    case True
    then obtain d where d: "b = d @ ''.c''" using endswith_iff_append by blast
    have "endswith filename ''.c.c''"
      unfolding b using True by (simp add: endswith_cc)
    moreover have "remove_extension b = Inr (take (length filename - 4) filename)"
      unfolding b d by (simp add: remove_extension_def)
    ultimately show ?thesis using first by simp
  next
    case False
    have "\<not> endswith filename ''.c.c''"
      unfolding b using False by (simp add: endswith_cc)
    moreover have "remove_extension b = Inl (Abort (''Unknown extension: '' @ b))"
      using False by (simp add: remove_extension_def)
    ultimately show ?thesis using first by simp
  qed
qed

theorem remove_extension_twice_witness:
  "endswith ''lib.c.c'' ''.c'' \<and> endswith ''lib.c.c'' ''.c.c''
   \<and> remove_extension ''lib.c.c'' = Inr ''lib.c'' \<and> remove_extension ''lib.c'' = Inr ''lib''
   \<and> endswith ''main.c'' ''.c'' \<and> \<not> endswith ''main.c'' ''.c.c''
   \<and> remove_extension ''main.c'' = Inr ''main''
   \<and> remove_extension ''main'' = Inl (Abort ''Unknown extension: main'')"
  using remove_extension_twice [of "''lib.c.c''"] remove_extension_twice [of "''main.c''"]
  by (simp add: endswith_def remove_extension_def)

section \<open>Properties of getSources and getResults\<close>

lemma getSources_endswith: "src \<in> set (getSources p fs) \<Longrightarrow> endswith (snd src) ''.c''"
  by (auto simp: getSources_def sources_in_def)

lemma results_of_all_c:
  "\<forall>src \<in> set srcs. endswith (snd src) ''.c'' \<Longrightarrow>
   results_of d srcs =
     Inr (map (\<lambda>src. os_path_join d (take (length (snd src) - 2) (snd src) @ ''.wasm'')) srcs)"
  by (induction srcs) (simp_all add: remove_extension_def)

text \<open>
  C2. \<open>getResults\<close> never aborts and yields one path for each source unit, in the order
  of the enumeration: the output base joined with the project name and with the file
  name in which the trailing \<open>.c\<close> is replaced by \<open>.wasm\<close>. The path is computed from
  the file name alone; the directory of the source unit does not enter it.
\<close>

theorem getResults_flat:
  "getResults p fs =
     Inr (map (\<lambda>src. os_path_join (os_path_join (output_base p) (name p))
                        (take (length (snd src) - 2) (snd src) @ ''.wasm''))
              (getSources p fs))"
  unfolding getResults_def getOutputDir_def
  by (rule results_of_all_c) (simp add: getSources_endswith)

text \<open>
  Two files \<open>x.c\<close> in the source subdirectories \<open>a\<close> and \<open>b\<close> are two source units
  with one and the same result path.
\<close>

lemma getSources_same_name:
  "getSources \<lparr>dir = ''/w'', name = ''bench'', subDir = ''c'', output_base = ''/out''\<rparr>
     (Dir [(''w'', Dir [(''src'', Dir [(''bench'', Dir [(''c'',
        Dir [(''a'', Dir [(''x.c'', File)]), (''b'', Dir [(''x.c'', File)])])])])])])
   = [(''/w/src/bench/c/a'', ''x.c''), (''/w/src/bench/c/b'', ''x.c'')]"
  by code_simp

theorem getResults_flat_witness:
  "getResults \<lparr>dir = ''/w'', name = ''bench'', subDir = ''c'', output_base = ''/out''\<rparr>
     (Dir [(''w'', Dir [(''src'', Dir [(''bench'', Dir [(''c'',
        Dir [(''a'', Dir [(''x.c'', File)]), (''b'', Dir [(''x.c'', File)])])])])])])
   = Inr [''/out/bench/x.wasm'', ''/out/bench/x.wasm'']"
  using getResults_flat [of "\<lparr>dir = ''/w'', name = ''bench'', subDir = ''c'', output_base = ''/out''\<rparr>"
      "Dir [(''w'', Dir [(''src'', Dir [(''bench'', Dir [(''c'',
        Dir [(''a'', Dir [(''x.c'', File)]), (''b'', Dir [(''x.c'', File)])])])])])]"]
  unfolding getSources_same_name
  by (simp add: os_path_join_def startswith_def endswith_def)

text \<open>
  C9. When the source directory of the project does not exist in the file system, the
  enumeration is empty; \<open>getSources\<close> has no way of failing.
\<close>

theorem getSources_missing_root:
  assumes "resolve fs (getSourceDir p) = None"
  shows "getSources p fs = []"
  using assms by (simp add: getSources_def os_walk_def walk_node_def sources_in_def)

lemma resolve_missing_example:
  "resolve (Dir [(''w'', Dir [(''README'', File)])])
     (getSourceDir \<lparr>dir = ''/w'', name = ''bench'', subDir = ''c'', output_base = ''/out''\<rparr>)
   = None"
  by code_simp

theorem getSources_missing_root_witness:
  "resolve (Dir [(''w'', Dir [(''README'', File)])])
     (getSourceDir \<lparr>dir = ''/w'', name = ''bench'', subDir = ''c'', output_base = ''/out''\<rparr>)
   = None
   \<and> getSources \<lparr>dir = ''/w'', name = ''bench'', subDir = ''c'', output_base = ''/out''\<rparr>
        (Dir [(''w'', Dir [(''README'', File)])]) = []"
  using getSources_missing_root [OF resolve_missing_example] resolve_missing_example
  by simp

section \<open>Properties of mkdir_p\<close>

lemma lookup_Nil: "lookup n [] = follow n"
  by (induction n rule: follow.induct) simp_all

lemma follow_idem: "follow n = Some m \<Longrightarrow> follow m = Some m"
  by (induction n rule: follow.induct) auto

lemma lookup_followed: "lookup n ps = Some m \<Longrightarrow> follow m = Some m"
  by (induction n ps rule: lookup.induct) (auto split: option.splits)

lemma mkdir_chain_is_Dir: "\<exists>es. snd (mkdir_chain deny pre ps) = Dir es"
  by (cases ps) (auto split: option.splits prod.splits)

lemma mkdir_chain_creates:
  "mkdir_chain deny pre ps = (None, m) \<Longrightarrow> lookup m ps = Some (Dir [])"
proof (induction ps arbitrary: pre m)
  case Nil
  then show ?case by auto
next
  case (Cons p ps)
  from Cons.prems obtain k where k: "mkdir_chain deny (pre @ [p]) ps = (None, k)"
    and m: "m = Dir [(p, k)]"
    by (auto split: option.splits prod.splits)
  from Cons.IH [OF k] show ?case by (simp add: m)
qed

lemma makedirs_at_creates:
  "makedirs_at deny pre n ps = (None, n') \<Longrightarrow> lookup n' ps = Some (Dir [])"
proof (induction deny pre n ps arbitrary: n' rule: makedirs_at.induct)
  case (2 deny pre es p ps)
  show ?case
  proof (cases "map_of es p")
    case None
    with "2.prems" obtain k where k: "mkdir_chain deny (pre @ [p]) ps = (None, k)"
      and n': "n' = Dir (AList.update p k es)"
      by (auto split: option.splits prod.splits)
    from mkdir_chain_creates [OF k] show ?thesis by (simp add: n' update_conv')
  next
    case (Some m)
    with "2.prems" obtain m' where m': "makedirs_at deny (pre @ [p]) m ps = (None, m')"
      and n': "n' = Dir (AList.update p m' es)"
      by (auto split: prod.splits)
    from "2.IH" [OF Some m'] show ?thesis by (simp add: n' update_conv')
  qed
next
  case (3 deny pre n p ps)
  from "3.prems" obtain k where k: "makedirs_at deny pre n (p # ps) = (None, k)"
    and n': "n' = Symlink (Some k)"
    by (auto split: prod.splits)
  from "3.IH" [OF k] show ?case by (simp add: n')
qed simp_all

lemma makedirs_at_exists:
  "lookup n ps = Some m \<Longrightarrow> makedirs_at deny pre n ps = (Some EEXIST, n)"
proof (induction deny pre n ps rule: makedirs_at.induct)
  case (2 deny pre es p ps)
  from "2.prems" obtain k where k: "map_of es p = Some k" and l: "lookup k ps = Some m"
    by (auto split: option.splits)
  from "2.IH" [OF k l] show ?case by (simp add: k update_triv)
qed simp_all

lemma mkdir_p_isdir:
  assumes "mkdir_p deny fs path = (None, fs')"
  shows "os_path_isdir fs' path"
proof (cases "os_makedirs deny fs path")
  case (Pair e n)
  show ?thesis
  proof (cases e)
    case None
    with assms Pair have n: "n = fs'" by (simp add: mkdir_p_def)
    from Pair None have ne: "path \<noteq> []"
      and "makedirs_at deny [] fs (components path) = (None, fs')"
      unfolding n by (auto simp: os_makedirs_def split: if_splits)
    then have "lookup fs' (components path) = Some (Dir [])"
      using makedirs_at_creates by blast
    then show ?thesis using ne by (simp add: os_path_isdir_def resolve_def)
  next
    case (Some a)
    with assms Pair show ?thesis by (simp add: mkdir_p_def split: if_splits)
  qed
qed

lemma mkdir_p_unchanged_iff:
  assumes "mkdir_p deny fs path = (None, fs')"
  shows "fs' = fs \<longleftrightarrow> os_path_isdir fs path"
proof
  assume "fs' = fs"
  then show "os_path_isdir fs path" using mkdir_p_isdir [OF assms] by simp
next
  assume d: "os_path_isdir fs path"
  then obtain m where ne: "path \<noteq> []" and l: "lookup fs (components path) = Some m"
    by (auto simp: os_path_isdir_def resolve_def split: if_splits option.splits node.splits)
  then have "os_makedirs deny fs path = (Some EEXIST, fs)"
    by (simp add: os_makedirs_def makedirs_at_exists)
  with d assms show "fs' = fs" by (simp add: mkdir_p_def)
qed

lemma mkdir_p_failure_cases:
  "fst (mkdir_p deny fs path) = Some e \<Longrightarrow> \<exists>n. e = OSError n"
  by (auto simp: mkdir_p_def split: prod.splits option.splits if_splits)

text \<open>
  A failure of \<open>mkdir_p\<close> can leave directories behind. Where a name of more than 255
  characters is refused, making \<open>out/xxx...\<close> with 300 times \<open>x\<close> in an empty tree
  raises \<open>ENAMETOOLONG\<close> after \<open>out\<close> has been made; and a build with that output
  directory ends with this error and leaves \<open>out\<close> in the file system.
\<close>

lemma mkdir_p_leaves_parents:
  "mkdir_p (\<lambda>path. if 255 < length (last path) then Some Name_too_long else None)
     (Dir []) (''out/'' @ replicate 300 (CHR ''x''))
   = (Some (OSError ENAMETOOLONG), Dir [(''out'', Dir [])])"
  by code_simp

lemma build_leaves_parents:
  "failure (build \<lparr>dir = ''/w'', name = replicate 300 (CHR ''x''), subDir = ''c'',
                    output_base = ''out''\<rparr>
      Map.empty (\<lambda>hist cmd. 0)
      (\<lambda>path. if 255 < length (last path) then Some Name_too_long else None) (Dir []))
     = Some (OSError ENAMETOOLONG)
   \<and> fs_after (build \<lparr>dir = ''/w'', name = replicate 300 (CHR ''x''), subDir = ''c'',
                    output_base = ''out''\<rparr>
      Map.empty (\<lambda>hist cmd. 0)
      (\<lambda>path. if 255 < length (last path) then Some Name_too_long else None) (Dir []))
     = Dir [(''out'', Dir [])]"
  by code_simp

section \<open>The compile loop\<close>

lemma compile_all_c:
  assumes "endswith (snd src) ''.c''"
  shows "compile_all proc e d hist (src # srcs) =
     (let cmd = [e, ''-Os'', os_path_join (fst src) (snd src), ''-o'',
                 os_path_join d (take (length (snd src) - 2) (snd src) @ ''.js'')]
      in if proc hist cmd = 0 then compile_all proc e d (hist @ [cmd]) srcs
         else (Some (CompileFailure cmd (proc hist cmd)), hist @ [cmd]))"
  using assms by (simp add: remove_extension_def compile_cmd_def mx_run_def Let_def)

lemma compile_all_prefix:
  assumes "\<forall>src \<in> set srcs. endswith (snd src) ''.c''"
  shows "\<exists>k \<le> length srcs. snd (compile_all proc e d hist srcs) =
     hist @ take k (map (\<lambda>src. [e, ''-Os'', os_path_join (fst src) (snd src), ''-o'',
                 os_path_join d (take (length (snd src) - 2) (snd src) @ ''.js'')]) srcs)"
  using assms
proof (induction srcs arbitrary: hist)
  case Nil
  then show ?case by simp
next
  case (Cons src srcs)
  let ?c = "\<lambda>src. [e, ''-Os'', os_path_join (fst src) (snd src), ''-o'',
                 os_path_join d (take (length (snd src) - 2) (snd src) @ ''.js'')]"
  from Cons.prems have c: "endswith (snd src) ''.c''" and rest: "\<forall>s \<in> set srcs. endswith (snd s) ''.c''"
    by simp_all
  show ?case
  proof (cases "proc hist (?c src) = 0")
    case True
    from Cons.IH [OF rest, of "hist @ [?c src]"] obtain k where
      k: "k \<le> length srcs" and
      s: "snd (compile_all proc e d (hist @ [?c src]) srcs) = (hist @ [?c src]) @ take k (map ?c srcs)"
      by blast
    have "snd (compile_all proc e d hist (src # srcs)) = hist @ take (Suc k) (map ?c (src # srcs))"
      using True s by (simp add: compile_all_c [OF c] Let_def del: compile_all.simps)
    moreover have "Suc k \<le> length (src # srcs)" using k by simp
    ultimately show ?thesis by blast
  next
    case False
    have "snd (compile_all proc e d hist (src # srcs)) = hist @ take (Suc 0) (map ?c (src # srcs))"
      using False by (simp add: compile_all_c [OF c] Let_def del: compile_all.simps)
    moreover have "Suc 0 \<le> length (src # srcs)" by simp
    ultimately show ?thesis by blast
  qed
qed

lemma compile_all_success:
  assumes "\<forall>src \<in> set srcs. endswith (snd src) ''.c''"
    and "cmds = map (\<lambda>src. [e, ''-Os'', os_path_join (fst src) (snd src), ''-o'',
                 os_path_join d (take (length (snd src) - 2) (snd src) @ ''.js'')]) srcs"
    and "\<forall>i < length cmds. proc (hist @ take i cmds) (cmds ! i) = 0"
  shows "compile_all proc e d hist srcs = (None, hist @ cmds)"
  using assms
proof (induction srcs arbitrary: hist cmds)
  case Nil
  then show ?case by simp
next
  case (Cons src srcs)
  let ?c = "\<lambda>src. [e, ''-Os'', os_path_join (fst src) (snd src), ''-o'',
                 os_path_join d (take (length (snd src) - 2) (snd src) @ ''.js'')]"
  from Cons.prems(1) have c: "endswith (snd src) ''.c''" and rest: "\<forall>s \<in> set srcs. endswith (snd s) ''.c''"
    by simp_all
  have cmds: "cmds = ?c src # map ?c srcs" using Cons.prems(2) by simp
  have zero: "proc hist (?c src) = 0"
    using Cons.prems(3) [rule_format, of 0] by (simp add: cmds)
  have later: "\<forall>i < length (map ?c srcs). proc ((hist @ [?c src]) @ take i (map ?c srcs)) (map ?c srcs ! i) = 0"
  proof (intro allI impI)
    fix i assume "i < length (map ?c srcs)"
    then have "Suc i < length cmds" by (simp add: cmds)
    from Cons.prems(3) [rule_format, OF this]
    show "proc ((hist @ [?c src]) @ take i (map ?c srcs)) (map ?c srcs ! i) = 0"
      by (simp add: cmds)
  qed
  from Cons.IH [OF rest refl later]
  show ?case using zero by (simp add: compile_all_c [OF c] Let_def cmds del: compile_all.simps)
qed

lemma compile_all_failure:
  assumes "\<forall>src \<in> set srcs. endswith (snd src) ''.c''"
    and "cmds = map (\<lambda>src. [e, ''-Os'', os_path_join (fst src) (snd src), ''-o'',
                 os_path_join d (take (length (snd src) - 2) (snd src) @ ''.js'')]) srcs"
    and "k < length cmds"
    and "\<forall>i < k. proc (hist @ take i cmds) (cmds ! i) = 0"
    and "proc (hist @ take k cmds) (cmds ! k) \<noteq> 0"
  shows "compile_all proc e d hist srcs =
     (Some (CompileFailure (cmds ! k) (proc (hist @ take k cmds) (cmds ! k))),
      hist @ take (Suc k) cmds)"
  using assms
proof (induction srcs arbitrary: hist cmds k)
  case Nil
  then show ?case by simp
next
  case (Cons src srcs)
  let ?c = "\<lambda>src. [e, ''-Os'', os_path_join (fst src) (snd src), ''-o'',
                 os_path_join d (take (length (snd src) - 2) (snd src) @ ''.js'')]"
  from Cons.prems(1) have c: "endswith (snd src) ''.c''" and rest: "\<forall>s \<in> set srcs. endswith (snd s) ''.c''"
    by simp_all
  have cmds: "cmds = ?c src # map ?c srcs" using Cons.prems(2) by simp
  show ?case
  proof (cases k)
    case 0
    with Cons.prems(5) have "proc hist (?c src) \<noteq> 0" by (simp add: cmds)
    then show ?thesis using 0 by (simp add: compile_all_c [OF c] Let_def cmds del: compile_all.simps)
  next
    case (Suc j)
    have zero: "proc hist (?c src) = 0"
      using Cons.prems(4) [rule_format, of 0] Suc by (simp add: cmds)
    have j: "j < length (map ?c srcs)" using Cons.prems(3) Suc by (simp add: cmds)
    have before: "\<forall>i < j. proc ((hist @ [?c src]) @ take i (map ?c srcs)) (map ?c srcs ! i) = 0"
    proof (intro allI impI)
      fix i assume "i < j"
      then have "Suc i < k" using Suc by simp
      from Cons.prems(4) [rule_format, OF this]
      show "proc ((hist @ [?c src]) @ take i (map ?c srcs)) (map ?c srcs ! i) = 0"
        by (simp add: cmds)
    qed
    have at: "proc ((hist @ [?c src]) @ take j (map ?c srcs)) (map ?c srcs ! j) \<noteq> 0"
      using Cons.prems(5) Suc by (simp add: cmds)
    from Cons.IH [OF rest refl j before at]
    show ?thesis using zero Suc by (simp add: compile_all_c [OF c] Let_def cmds del: compile_all.simps)
  qed
qed

section \<open>mkdir_p does not change the enumeration\<close>

lemma sources_in_Nil [simp]: "sources_in [] = []"
  by (simp add: sources_in_def)

lemma sources_in_Cons:
  "sources_in ((r, ds, fs) # w) =
     map (\<lambda>f. (r, f)) (filter (\<lambda>f. endswith f ''.c'') fs) @ sources_in w"
  by (simp add: sources_in_def)

lemma sources_in_append: "sources_in (a @ b) = sources_in a @ sources_in b"
  by (simp add: sources_in_def)

lemma walk_entries_Cons:
  "walk_entries t (e # es) = walk_entries t [e] @ walk_entries t es"
  by (cases "snd e") simp_all

lemma walk_entries_append:
  "walk_entries t (es @ es') = walk_entries t es @ walk_entries t es'"
proof (induction es)
  case Nil
  then show ?case by simp
next
  case (Cons e es)
  have "walk_entries t ((e # es) @ es') = walk_entries t [e] @ walk_entries t (es @ es')"
    using walk_entries_Cons [of t e "es @ es'"] by simp
  also have "\<dots> = walk_entries t [e] @ walk_entries t es @ walk_entries t es'"
    using Cons.IH by simp
  also have "\<dots> = walk_entries t (e # es) @ walk_entries t es'"
    using walk_entries_Cons [of t e es] by simp
  finally show ?case .
qed

lemma filenames_append: "filenames (es @ es') = filenames es @ filenames es'"
  by (simp add: filenames_def)

lemma walk_node_simps [simp]:
  "walk_node t None = []"
  "walk_node t (Some File) = []"
  "walk_node t (Some Fifo) = []"
  "walk_node t (Some (Symlink l)) = []"
  "walk_node t (Some Locked) = []"
  "walk_node t (Some (Dir es)) = walk t es"
  by (simp_all add: walk_node_def)

lemma sources_in_walk:
  "sources_in (walk t es) =
     map (\<lambda>f. (t, f)) (filter (\<lambda>f. endswith f ''.c'') (filenames es))
     @ sources_in (walk_entries t es)"
  by (simp add: sources_in_Cons)

lemma walk_entries_single:
  "walk_entries t [(p, m)] = walk_node (os_path_join t p) (case m of Dir sub \<Rightarrow> Some m | _ \<Rightarrow> None)"
  by (cases m) simp_all

lemma is_dir_simps [simp]:
  "is_dir (Dir es)" "is_dir Locked" "\<not> is_dir File" "\<not> is_dir Fifo"
  "\<not> is_dir (Symlink None)"
  "is_dir (Symlink (Some n)) = is_dir n"
  by (simp_all add: is_dir_def)

lemma mkdir_chain_sources:
  "sources_in (walk_node t (lookup (snd (mkdir_chain deny pre ps)) qs)) = []"
proof (induction ps arbitrary: pre qs t)
  case Nil
  show ?case by (cases qs) (simp_all add: sources_in_Cons filenames_def)
next
  case (Cons p ps)
  show ?case
  proof (cases "deny (pre @ [p])")
    case (Some r)
    then show ?thesis by (cases qs) (simp_all add: sources_in_Cons filenames_def)
  next
    case None
    obtain e k where k: "mkdir_chain deny (pre @ [p]) ps = (e, k)"
      by (cases "mkdir_chain deny (pre @ [p]) ps")
    obtain sub where sub: "k = Dir sub"
      using mkdir_chain_is_Dir [of deny "pre @ [p]" ps] by (auto simp: k)
    have m: "snd (mkdir_chain deny pre (p # ps)) = Dir [(p, Dir sub)]"
      using None k sub by simp
    have ih: "sources_in (walk_node t' (lookup (Dir sub) qs')) = []" for t' qs'
      using Cons.IH [of t' "pre @ [p]" qs'] by (simp add: k sub)
    show ?thesis
    proof (cases qs)
      case Nil
      have "sources_in (walk (os_path_join t p) sub) = []"
        using ih [of "os_path_join t p" "[]"] by simp
      then show ?thesis
        unfolding m Nil
        by (simp add: sources_in_Cons filenames_def sources_in_append del: walk.simps)
          (simp add: sources_in_Cons filenames_def)
    next
      case (Cons q qs')
      show ?thesis unfolding m Cons using ih [of t qs'] by simp
    qed
  qed
qed

lemma makedirs_at_kind:
  "makedirs_at deny pre n ps = (e, n') \<Longrightarrow>
     is_dir n' = is_dir n \<and> ((\<exists>es. n' = Dir es) \<longleftrightarrow> (\<exists>es. n = Dir es))"
proof (induction deny pre n ps arbitrary: e n' rule: makedirs_at.induct)
  case (2 deny pre es p ps)
  then show ?case by (auto split: option.splits prod.splits)
next
  case (3 deny pre n p ps)
  from "3.prems" obtain k where k: "makedirs_at deny pre n (p # ps) = (e, k)"
    and n': "n' = Symlink (Some k)"
    by (auto split: prod.splits)
  from "3.IH" [OF k] show ?case by (simp add: n')
qed auto

lemma update_absent: "map_of es p = None \<Longrightarrow> AList.update p v es = es @ [(p, v)]"
  by (induction es) (auto split: if_splits)

lemma filenames_update:
  "map_of es p = Some m \<Longrightarrow> is_dir m' = is_dir m \<Longrightarrow>
     filenames (AList.update p m' es) = filenames es"
  by (induction es) (auto simp: filenames_def split: if_splits)

lemma walk_entries_update:
  assumes "map_of es p = Some m"
    and "sources_in (walk_entries t [(p, m')]) = sources_in (walk_entries t [(p, m)])"
  shows "sources_in (walk_entries t (AList.update p m' es)) = sources_in (walk_entries t es)"
  using assms(1)
proof (induction es)
  case Nil
  then show ?case by simp
next
  case (Cons e es)
  obtain k v where e: "e = (k, v)" by (cases e)
  show ?case
  proof (cases "k = p")
    case True
    with Cons.prems have v: "v = m" by (simp add: e)
    have "walk_entries t (AList.update p m' (e # es)) = walk_entries t [(p, m')] @ walk_entries t es"
      using True walk_entries_Cons [of t "(p, m')" es] by (simp add: e)
    moreover have "walk_entries t (e # es) = walk_entries t [(p, m)] @ walk_entries t es"
      using True v walk_entries_Cons [of t "(p, m)" es] by (simp add: e)
    ultimately show ?thesis using assms(2) by (simp add: sources_in_append)
  next
    case False
    with Cons.prems have mo: "map_of es p = Some m" by (simp add: e)
    have "walk_entries t (AList.update p m' (e # es))
        = walk_entries t [e] @ walk_entries t (AList.update p m' es)"
      using False walk_entries_Cons [of t e "AList.update p m' es"] by (simp add: e)
    moreover have "walk_entries t (e # es) = walk_entries t [e] @ walk_entries t es"
      by (rule walk_entries_Cons)
    ultimately show ?thesis using Cons.IH [OF mo] by (simp add: sources_in_append)
  qed
qed

lemma makedirs_at_sources:
  "makedirs_at deny pre n ps = (e, n') \<Longrightarrow>
   sources_in (walk_node t (lookup n' qs)) = sources_in (walk_node t (lookup n qs))"
proof (induction deny pre n ps arbitrary: e n' qs t rule: makedirs_at.induct)
  case (1 deny pre n)
  then show ?case by simp
next
  case (2 deny pre es p ps)
  show ?case
  proof (cases "map_of es p")
    case None
    show ?thesis
    proof (cases "deny (pre @ [p])")
      case (Some r)
      with None "2.prems" show ?thesis by simp
    next
      case dn: None
      obtain e' k where k: "mkdir_chain deny (pre @ [p]) ps = (e', k)"
        by (cases "mkdir_chain deny (pre @ [p]) ps")
      obtain sub where sub: "k = Dir sub"
        using mkdir_chain_is_Dir [of deny "pre @ [p]" ps] by (auto simp: k)
      from None dn k "2.prems" have n': "n' = Dir (es @ [(p, Dir sub)])"
        by (simp add: update_absent sub)
      have chain: "sources_in (walk_node t' (lookup (Dir sub) qs')) = []" for t' qs'
        using mkdir_chain_sources [of t' deny "pre @ [p]" ps qs'] by (simp add: k sub)
      show ?thesis
      proof (cases qs)
        case Nil
        have "sources_in (walk (os_path_join t p) sub) = []"
          using chain [of "os_path_join t p" "[]"] by simp
        then have "sources_in (walk_entries t [(p, Dir sub)]) = []"
          by (simp del: walk.simps)
        then have "sources_in (walk_entries t (es @ [(p, Dir sub)])) = sources_in (walk_entries t es)"
          by (simp add: walk_entries_append sources_in_append del: walk_entries.simps)
        then show ?thesis
          unfolding n' Nil by (simp add: sources_in_Cons filenames_append filenames_def)
      next
        case (Cons q qs')
        show ?thesis
        proof (cases "q = p")
          case True
          have "map_of (es @ [(p, Dir sub)]) p = Some (Dir sub)"
            using None by (simp add: map_add_def)
          then show ?thesis
            unfolding n' Cons using True None chain [of t qs'] by simp
        next
          case False
          then have "map_of (es @ [(p, Dir sub)]) q = map_of es q"
            by (simp add: map_add_def split: option.splits)
          then show ?thesis unfolding n' Cons by simp
        qed
      qed
    qed
  next
    case (Some m)
    with "2.prems" obtain m' where m': "makedirs_at deny (pre @ [p]) m ps = (e, m')"
      and n': "n' = Dir (AList.update p m' es)"
      by (auto split: prod.splits)
    note ih = "2.IH" [OF Some m']
    from makedirs_at_kind [OF m'] have dm: "is_dir m' = is_dir m"
      and km: "(\<exists>es. m' = Dir es) \<longleftrightarrow> (\<exists>es. m = Dir es)" by simp_all
    show ?thesis
    proof (cases qs)
      case Nil
      have single: "sources_in (walk_entries t [(p, m')]) = sources_in (walk_entries t [(p, m)])"
      proof (cases "\<exists>sub. m = Dir sub")
        case True
        then obtain sub sub' where s: "m = Dir sub" "m' = Dir sub'" using km by auto
        from ih [of "os_path_join t p" "[]"] show ?thesis
          by (simp add: s del: walk.simps)
      next
        case False
        then have "\<not> (\<exists>sub. m' = Dir sub)" using km by simp
        with False show ?thesis by (cases m; cases m') simp_all
      qed
      have "sources_in (walk_entries t (AList.update p m' es)) = sources_in (walk_entries t es)"
        using Some single by (rule walk_entries_update)
      moreover have "filenames (AList.update p m' es) = filenames es"
        using Some dm by (rule filenames_update)
      ultimately show ?thesis unfolding n' Nil by (simp add: sources_in_Cons)
    next
      case (Cons q qs')
      show ?thesis
      proof (cases "q = p")
        case True
        from ih [of t qs'] show ?thesis
          unfolding n' Cons using True Some by (simp add: update_conv')
      next
        case False
        then show ?thesis unfolding n' Cons by (simp add: update_conv')
      qed
    qed
  qed
next
  case (3 deny pre n p ps)
  from "3.prems" obtain k where k: "makedirs_at deny pre n (p # ps) = (e, k)"
    and n': "n' = Symlink (Some k)"
    by (auto split: prod.splits)
  from "3.IH" [OF k, of t qs] show ?case by (simp add: n')
next
  case (4 deny pre p ps)
  then show ?case by simp
next
  case (5 deny pre p ps)
  then show ?case by simp
next
  case (6 deny pre p ps)
  then show ?case by simp
next
  case (7 deny pre p ps)
  then show ?case by simp
qed

lemma mkdir_p_getSources: "getSources p (snd (mkdir_p deny fs path)) = getSources p fs"
proof (cases "path = []")
  case True
  then show ?thesis by (simp add: mkdir_p_def os_makedirs_def)
next
  case False
  obtain e n where m: "makedirs_at deny [] fs (components path) = (e, n)"
    by (cases "makedirs_at deny [] fs (components path)")
  have "snd (mkdir_p deny fs path) = n"
    using False m by (simp add: mkdir_p_def os_makedirs_def split: option.splits)
  moreover have "getSources p n = getSources p fs"
    using makedirs_at_sources [OF m, of "getSourceDir p" "components (getSourceDir p)"]
    by (simp add: getSources_def os_walk_def resolve_def)
  ultimately show ?thesis by simp
qed

section \<open>The walk and the tree\<close>

lemma walk_entries_one:
  "walk_entries t [e] = walk_node (os_path_join t (fst e)) (Some (snd e))"
  by (cases "snd e") simp_all

lemma walk_entries_split:
  "walk_entries t (e # es) =
     walk_node (os_path_join t (fst e)) (Some (snd e)) @ walk_entries t es"
  using walk_entries_Cons [of t e es] by (simp only: walk_entries_one)

lemma descend_not_Dir:
  "\<not> (\<exists>es. n = Dir es) \<Longrightarrow> descend n qs = Some (Dir es') \<Longrightarrow> False"
  by (cases n; cases qs) simp_all

lemma walk_complete_aux:
  "(\<forall>t qs es'. descend n qs = Some (Dir es') \<longrightarrow>
       (foldl os_path_join t qs, dirnames es', filenames es') \<in> set (walk_node t (Some n)))"
  "(\<forall>t q m qs es'. map_of al q = Some m \<and> descend m qs = Some (Dir es') \<longrightarrow>
       (foldl os_path_join (os_path_join t q) qs, dirnames es', filenames es')
         \<in> set (walk_entries t al))"
proof (induction n and al rule: wf_node_wf_entries.induct)
  case 1
  show ?case using descend_not_Dir [of File] by blast
next
  case 2
  show ?case using descend_not_Dir [of Fifo] by blast
next
  case 3
  show ?case using descend_not_Dir [of Locked] by blast
next
  case 4
  show ?case using descend_not_Dir [of "Symlink None"] by blast
next
  case (5 n)
  show ?case using descend_not_Dir [of "Symlink (Some n)"] by blast
next
  case (6 al)
  show ?case
  proof (intro allI impI)
    fix t qs es' assume l: "descend (Dir al) qs = Some (Dir es')"
    show "(foldl os_path_join t qs, dirnames es', filenames es') \<in> set (walk_node t (Some (Dir al)))"
    proof (cases qs)
      case Nil
      with l show ?thesis by simp
    next
      case (Cons q qs')
      with l obtain m where "map_of al q = Some m" and "descend m qs' = Some (Dir es')"
        by (auto split: option.splits)
      with 6 have "(foldl os_path_join (os_path_join t q) qs', dirnames es', filenames es')
          \<in> set (walk_entries t al)" by blast
      then show ?thesis by (simp add: Cons)
    qed
  qed
next
  case 7
  show ?case by simp
next
  case (8 e al)
  show ?case
  proof (intro allI impI)
    fix t q m qs es'
    assume a: "map_of (e # al) q = Some m \<and> descend m qs = Some (Dir es')"
    show "(foldl os_path_join (os_path_join t q) qs, dirnames es', filenames es')
         \<in> set (walk_entries t (e # al))"
    proof (cases "q = fst e")
      case True
      with a have "m = snd e" by (cases e) simp
      with a "8.IH"(1) have "(foldl os_path_join (os_path_join t (fst e)) qs, dirnames es', filenames es')
         \<in> set (walk_node (os_path_join t (fst e)) (Some (snd e)))" by blast
      then show ?thesis using True by (simp add: walk_entries_split del: walk_entries.simps)
    next
      case False
      with a have "map_of al q = Some m" by (cases e) (simp split: if_splits)
      with a "8.IH"(2) have "(foldl os_path_join (os_path_join t q) qs, dirnames es', filenames es')
         \<in> set (walk_entries t al)" by blast
      then show ?thesis by (simp add: walk_entries_split del: walk_entries.simps)
    qed
  qed
qed

lemma walk_sound_aux:
  "wf_node n \<longrightarrow> (\<forall>t x. x \<in> set (walk_node t (Some n)) \<longrightarrow>
       (\<exists>qs es. descend n qs = Some (Dir es)
           \<and> x = (foldl os_path_join t qs, dirnames es, filenames es)))"
  "wf_entries al \<and> distinct (map fst al) \<longrightarrow> (\<forall>t x. x \<in> set (walk_entries t al) \<longrightarrow>
       (\<exists>q m qs es'. map_of al q = Some m \<and> descend m qs = Some (Dir es')
           \<and> x = (foldl os_path_join (os_path_join t q) qs, dirnames es', filenames es')))"
proof (induction n and al rule: wf_node_wf_entries.induct)
  case 1
  show ?case by simp
next
  case 2
  show ?case by simp
next
  case 3
  show ?case by simp
next
  case 4
  show ?case by simp
next
  case (5 n)
  show ?case by simp
next
  case (6 al)
  show ?case
  proof (intro impI allI)
    fix t x assume wf: "wf_node (Dir al)" and x: "x \<in> set (walk_node t (Some (Dir al)))"
    from x have "x = (t, dirnames al, filenames al) \<or> x \<in> set (walk_entries t al)" by simp
    then show "\<exists>qs es. descend (Dir al) qs = Some (Dir es)
           \<and> x = (foldl os_path_join t qs, dirnames es, filenames es)"
    proof
      assume "x = (t, dirnames al, filenames al)"
      then have "descend (Dir al) [] = Some (Dir al)
           \<and> x = (foldl os_path_join t [], dirnames al, filenames al)" by simp
      then show ?thesis by blast
    next
      assume xin: "x \<in> set (walk_entries t al)"
      from wf have "wf_entries al \<and> distinct (map fst al)" by simp
      with 6 xin obtain q m qs es' where "map_of al q = Some m" "descend m qs = Some (Dir es')"
        "x = (foldl os_path_join (os_path_join t q) qs, dirnames es', filenames es')"
        by blast
      then have "descend (Dir al) (q # qs) = Some (Dir es')
           \<and> x = (foldl os_path_join t (q # qs), dirnames es', filenames es')" by simp
      then show ?thesis by blast
    qed
  qed
next
  case 7
  show ?case by simp
next
  case (8 e al)
  show ?case
  proof (intro impI allI)
    fix t x
    assume wf: "wf_entries (e # al) \<and> distinct (map fst (e # al))"
      and x: "x \<in> set (walk_entries t (e # al))"
    from wf have wfe: "wf_node (snd e)" and wfal: "wf_entries al \<and> distinct (map fst al)"
      and notin: "fst e \<notin> fst ` set al" by auto
    from x have "x \<in> set (walk_node (os_path_join t (fst e)) (Some (snd e)))
        \<or> x \<in> set (walk_entries t al)"
      by (simp add: walk_entries_split del: walk_entries.simps)
    then show "\<exists>q m qs es'. map_of (e # al) q = Some m \<and> descend m qs = Some (Dir es')
           \<and> x = (foldl os_path_join (os_path_join t q) qs, dirnames es', filenames es')"
    proof
      assume "x \<in> set (walk_node (os_path_join t (fst e)) (Some (snd e)))"
      with "8.IH"(1) wfe obtain qs es' where "descend (snd e) qs = Some (Dir es')"
        "x = (foldl os_path_join (os_path_join t (fst e)) qs, dirnames es', filenames es')"
        by blast
      then have "map_of (e # al) (fst e) = Some (snd e) \<and> descend (snd e) qs = Some (Dir es')
           \<and> x = (foldl os_path_join (os_path_join t (fst e)) qs, dirnames es', filenames es')"
        by (cases e) simp
      then show ?thesis by blast
    next
      assume "x \<in> set (walk_entries t al)"
      with "8.IH"(2) wfal obtain q m qs es' where m: "map_of al q = Some m"
        and r: "descend m qs = Some (Dir es')"
        "x = (foldl os_path_join (os_path_join t q) qs, dirnames es', filenames es')"
        by blast
      from m have "q \<in> fst ` set al" using map_of_eq_None_iff [of al q] by simp
      with notin have "q \<noteq> fst e" by blast
      with m have "map_of (e # al) q = Some m" by (cases e) simp
      with r show ?thesis by blast
    qed
  qed
qed

lemma walk_set:
  assumes "wf_node (Dir al)"
  shows "set (walk t al) =
     {(foldl os_path_join t qs, dirnames es, filenames es) | qs es.
        descend (Dir al) qs = Some (Dir es)}"
proof (intro set_eqI iffI)
  fix x assume "x \<in> set (walk t al)"
  then have "x \<in> set (walk_node t (Some (Dir al)))" by simp
  with walk_sound_aux(1) [of "Dir al"] assms
  show "x \<in> {(foldl os_path_join t qs, dirnames es, filenames es) | qs es.
        descend (Dir al) qs = Some (Dir es)}"
    by blast
next
  fix x assume "x \<in> {(foldl os_path_join t qs, dirnames es, filenames es) | qs es.
        descend (Dir al) qs = Some (Dir es)}"
  with walk_complete_aux(1) [of "Dir al"]
  have "x \<in> set (walk_node t (Some (Dir al)))" by blast
  then show "x \<in> set (walk t al)" by simp
qed

section \<open>Path strings and components\<close>

lemma split_sep_nonempty: "split_sep c xs \<noteq> []"
  by (induction xs) (simp_all split: list.splits)

lemma split_sep_append:
  "split_sep c (a @ c # b) = split_sep c a @ split_sep c b"
proof (induction a)
  case Nil
  then show ?case by simp
next
  case (Cons x a)
  obtain w ws where w: "split_sep c a = w # ws"
    using split_sep_nonempty [of c a] by (cases "split_sep c a") auto
  show ?case using Cons.IH by (simp add: w)
qed

lemma split_sep_no_sep: "c \<notin> set b \<Longrightarrow> split_sep c b = [b]"
  by (induction b) auto

lemma components_Nil [simp]: "components [] = []"
  by (simp add: components_def path_step_def)

lemma path_step_name: "valid_name b \<Longrightarrow> path_step stack b = stack @ [b]"
  by (simp add: path_step_def valid_name_def)

lemma components_sep_name:
  assumes "valid_name b"
  shows "components (a @ ''/'' @ b) = components a @ [b]"
proof -
  have "split_sep (CHR ''/'') b = [b]"
    using assms by (simp add: valid_name_def split_sep_no_sep)
  then have "split_sep (CHR ''/'') (a @ ''/'' @ b) = split_sep (CHR ''/'') a @ [b]"
    by (simp add: split_sep_append)
  then show ?thesis using assms by (simp add: components_def path_step_name)
qed

lemma components_trailing: "components (a @ ''/'') = components a"
proof -
  have "split_sep (CHR ''/'') (a @ ''/'') = split_sep (CHR ''/'') a @ [[]]"
    using split_sep_append [of "CHR ''/''" a "[]"] by simp
  then show ?thesis by (simp add: components_def path_step_def)
qed

lemma components_name: "valid_name b \<Longrightarrow> components b = [b]"
  by (simp add: components_def valid_name_def split_sep_no_sep path_step_def)

lemma valid_name_not_abs: "valid_name b \<Longrightarrow> \<not> startswith b ''/''"
  by (cases b) (auto simp: valid_name_def startswith_def)

lemma components_join:
  assumes "valid_name b"
  shows "components (os_path_join a b) = components a @ [b]"
proof -
  have na: "\<not> startswith b ''/''" using assms by (rule valid_name_not_abs)
  show ?thesis
  proof (cases "a = [] \<or> endswith a ''/''")
    case True
    then show ?thesis
    proof
      assume "a = []"
      then show ?thesis using na assms by (simp add: os_path_join_def components_name)
    next
      assume e: "endswith a ''/''"
      then obtain a' where a': "a = a' @ ''/''" using endswith_iff_append by blast
      have ca: "components a = components a'"
        unfolding a' by (rule components_trailing)
      have "os_path_join a b = a' @ ''/'' @ b" using na e by (simp add: os_path_join_def a')
      then show ?thesis using ca components_sep_name [OF assms, of a'] by simp
    qed
  next
    case False
    then have "os_path_join a b = a @ ''/'' @ b" using na by (simp add: os_path_join_def)
    then show ?thesis using components_sep_name [OF assms, of a] by simp
  qed
qed

lemma components_foldl_join:
  "\<forall>q \<in> set qs. valid_name q \<Longrightarrow> components (foldl os_path_join t qs) = components t @ qs"
  by (induction qs arbitrary: t) (simp_all add: components_join)

section \<open>What getSources yields\<close>

lemma lookup_append:
  "lookup n (ps @ qs) = (case lookup n ps of None \<Rightarrow> None | Some m \<Rightarrow> lookup m qs)"
  by (induction n ps rule: lookup.induct) (simp_all split: option.splits)

lemma descend_append:
  "descend n (ps @ qs) = (case descend n ps of None \<Rightarrow> None | Some m \<Rightarrow> descend m qs)"
  by (induction n ps rule: descend.induct) (simp_all split: option.splits)

lemma wf_entries_map_of:
  "wf_entries al \<Longrightarrow> map_of al q = Some m \<Longrightarrow> wf_node m \<and> valid_name q"
  by (induction al) (auto split: if_splits)

lemma wf_lookup:
  "wf_node n \<Longrightarrow> lookup n qs = Some m \<Longrightarrow> wf_node m \<and> (\<forall>q \<in> set qs. valid_name q)"
proof (induction n qs rule: lookup.induct)
  case (4 es p ps)
  from "4.prems"(2) obtain k where k: "map_of es p = Some k" and l: "lookup k ps = Some m"
    by (auto split: option.splits)
  from "4.prems"(1) have "wf_entries es" by simp
  from wf_entries_map_of [OF this k] have "wf_node k \<and> valid_name p" .
  with "4.IH" [OF k _ l] show ?case by simp
qed auto

lemma wf_descend:
  "wf_node n \<Longrightarrow> descend n qs = Some m \<Longrightarrow> wf_node m \<and> (\<forall>q \<in> set qs. valid_name q)"
proof (induction n qs rule: descend.induct)
  case (2 es p ps)
  from "2.prems"(2) obtain k where k: "map_of es p = Some k" and l: "descend k ps = Some m"
    by (auto split: option.splits)
  from "2.prems"(1) have "wf_entries es" by simp
  from wf_entries_map_of [OF this k] have "wf_node k \<and> valid_name p" .
  with "2.IH" [OF k _ l] show ?case by simp
qed auto

lemma descend_lookup_Dir:
  "descend n qs = Some (Dir es') \<Longrightarrow> lookup n qs = Some (Dir es')"
  by (induction n qs rule: descend.induct) (auto split: option.splits)

lemma descend_snoc:
  "descend n (qs @ [f]) = Some k \<longleftrightarrow>
     (\<exists>es. descend n qs = Some (Dir es) \<and> map_of es f = Some k)"
proof (cases "descend n qs")
  case None
  then show ?thesis by (simp add: descend_append)
next
  case (Some m)
  then show ?thesis by (cases m) (simp_all add: descend_append split: option.splits)
qed

lemma descend_entry_lookup:
  assumes "descend n (qs @ [f]) = Some k"
  shows "lookup n (qs @ [f]) = follow k"
proof -
  from assms obtain es where d: "descend n qs = Some (Dir es)" and m: "map_of es f = Some k"
    unfolding descend_snoc by blast
  from descend_lookup_Dir [OF d] have "lookup n qs = Some (Dir es)" .
  then show ?thesis using m by (simp add: lookup_append lookup_Nil)
qed

lemma os_path_join_nonempty: "a \<noteq> [] \<or> b \<noteq> [] \<Longrightarrow> os_path_join a b \<noteq> []"
  by (auto simp: os_path_join_def startswith_def)

lemma getSourceDir_nonempty: "getSourceDir p \<noteq> []"
  by (simp add: getSourceDir_def os_path_join_nonempty)

lemma foldl_join_nonempty: "t \<noteq> [] \<Longrightarrow> foldl os_path_join t qs \<noteq> []"
  by (induction qs arbitrary: t) (simp_all add: os_path_join_nonempty)

lemma sources_in_iff:
  "(r, f) \<in> set (sources_in w) \<longleftrightarrow>
     (\<exists>ds fs. (r, ds, fs) \<in> set w \<and> f \<in> set fs \<and> endswith f ''.c'')"
  by (induction w) (auto simp: sources_in_def)

lemma filenames_iff: "f \<in> set (filenames es) \<longleftrightarrow> (\<exists>n. (f, n) \<in> set es \<and> \<not> is_dir n)"
  by (force simp: filenames_def)

lemma filenames_map_of:
  "distinct (map fst es) \<Longrightarrow>
     f \<in> set (filenames es) \<longleftrightarrow> (\<exists>n. map_of es f = Some n \<and> \<not> is_dir n)"
  by (simp add: filenames_iff)

lemma getSources_resolved:
  "resolve fs (getSourceDir p) = Some (Dir al) \<Longrightarrow>
     getSources p fs = sources_in (walk (getSourceDir p) al)"
  by (simp add: getSources_def os_walk_def)

lemma getSources_not_Dir:
  "\<not> (\<exists>al. resolve fs (getSourceDir p) = Some (Dir al)) \<Longrightarrow> getSources p fs = []"
  by (cases "resolve fs (getSourceDir p)")
     (auto simp: getSources_def os_walk_def walk_node_def split: node.splits)

lemma getSources_iff:
  assumes "wf_node fs"
  shows "(r, f) \<in> set (getSources p fs) \<longleftrightarrow>
     endswith f ''.c'' \<and>
     (\<exists>root qs n. resolve fs (getSourceDir p) = Some root
        \<and> r = foldl os_path_join (getSourceDir p) qs
        \<and> descend root (qs @ [f]) = Some n \<and> \<not> is_dir n)"
    (is "?L \<longleftrightarrow> ?R")
proof (cases "\<exists>al. resolve fs (getSourceDir p) = Some (Dir al)")
  case False
  have "\<not> ?R"
  proof
    assume ?R
    then obtain root qs n where r: "resolve fs (getSourceDir p) = Some root"
      and d: "descend root (qs @ [f]) = Some n" by blast
    from d obtain es where "descend root qs = Some (Dir es)" unfolding descend_snoc by blast
    then have "\<exists>al. root = Dir al" by (cases root; cases qs) simp_all
    with r False show False by blast
  qed
  then show ?thesis using getSources_not_Dir [OF False] by simp
next
  case True
  then obtain al where res: "resolve fs (getSourceDir p) = Some (Dir al)" by blast
  then have "lookup fs (components (getSourceDir p)) = Some (Dir al)"
    by (simp add: resolve_def split: if_splits)
  from wf_lookup [OF assms this] have wfn: "wf_node (Dir al)" by simp
  note gs = getSources_resolved [OF res]
  have dist: "distinct (map fst es)" if "descend (Dir al) qs = Some (Dir es)" for qs es
    using wf_descend [OF wfn that] by simp
  show ?thesis
  proof
    assume ?L
    then obtain ds fl where m: "(r, ds, fl) \<in> set (walk (getSourceDir p) al)"
      and f: "f \<in> set fl" and c: "endswith f ''.c''"
      unfolding gs sources_in_iff by blast
    from m obtain qs es where l: "descend (Dir al) qs = Some (Dir es)"
      and r: "r = foldl os_path_join (getSourceDir p) qs" and fl: "fl = filenames es"
      unfolding walk_set [OF wfn] by blast
    from f fl dist [OF l] obtain n where "map_of es f = Some n" and nd: "\<not> is_dir n"
      by (auto simp: filenames_map_of)
    with l have "descend (Dir al) (qs @ [f]) = Some n" unfolding descend_snoc by blast
    with c r res nd show ?R by blast
  next
    assume ?R
    then obtain root qs n where c: "endswith f ''.c''"
      and rr: "resolve fs (getSourceDir p) = Some root"
      and r: "r = foldl os_path_join (getSourceDir p) qs"
      and l: "descend root (qs @ [f]) = Some n" and nd: "\<not> is_dir n" by blast
    from rr res have root: "root = Dir al" by simp
    from l obtain es where es: "descend (Dir al) qs = Some (Dir es)"
      and mf: "map_of es f = Some n"
      unfolding descend_snoc root by blast
    from mf nd dist [OF es] have "f \<in> set (filenames es)" by (auto simp: filenames_map_of)
    moreover from es have "(r, dirnames es, filenames es) \<in> set (walk (getSourceDir p) al)"
      unfolding walk_set [OF wfn] r by blast
    ultimately show ?L unfolding gs sources_in_iff using c by blast
  qed
qed

section \<open>Paths of the units, and each unit once\<close>

lemma getSources_paths:
  assumes "wf_node fs" and "(r, f) \<in> set (getSources p fs)"
  shows "os_path_isdir fs r \<and> \<not> os_path_isdir fs (os_path_join r f)"
proof -
  from assms obtain root qs n where res: "resolve fs (getSourceDir p) = Some root"
    and r: "r = foldl os_path_join (getSourceDir p) qs"
    and d: "descend root (qs @ [f]) = Some n" and nd: "\<not> is_dir n"
    unfolding getSources_iff [OF assms(1)] by blast
  from res have l: "lookup fs (components (getSourceDir p)) = Some root"
    by (simp add: resolve_def split: if_splits)
  from wf_lookup [OF assms(1) l] have wfr: "wf_node root" by simp
  from wf_descend [OF wfr d] have vq: "\<forall>q \<in> set qs. valid_name q" and vf: "valid_name f"
    by simp_all
  from d obtain es where de: "descend root qs = Some (Dir es)" unfolding descend_snoc by blast
  have rne: "r \<noteq> []" unfolding r using getSourceDir_nonempty by (rule foldl_join_nonempty)
  have cr: "components r = components (getSourceDir p) @ qs"
    unfolding r using vq by (rule components_foldl_join)
  have "lookup fs (components r) = Some (Dir es)"
    unfolding cr using l descend_lookup_Dir [OF de] by (simp add: lookup_append)
  then have a: "os_path_isdir fs r" using rne by (simp add: os_path_isdir_def resolve_def)
  have "lookup fs (components (os_path_join r f)) = follow n"
    using l descend_entry_lookup [OF d]
    by (simp add: components_join [OF vf] cr lookup_append)
  then have "resolve fs (os_path_join r f) = follow n"
    using rne by (simp add: resolve_def os_path_join_nonempty)
  then have b: "\<not> os_path_isdir fs (os_path_join r f)"
    using nd by (simp add: os_path_isdir_def is_dir_def)
  from a b show ?thesis by blast
qed

lemma walk_roots:
  assumes "wf_node n" and "x \<in> set (walk_node t (Some n))"
  shows "\<exists>qs. components (fst x) = components t @ qs"
proof -
  from walk_sound_aux(1) [of n] assms obtain qs es where l: "descend n qs = Some (Dir es)"
    and x: "x = (foldl os_path_join t qs, dirnames es, filenames es)" by blast
  from wf_descend [OF assms(1) l] have "\<forall>q \<in> set qs. valid_name q" by simp
  then have "components (fst x) = components t @ qs"
    unfolding x by (simp add: components_foldl_join)
  then show ?thesis by blast
qed

lemma walk_entries_roots:
  assumes "wf_entries al" and "distinct (map fst al)" and "x \<in> set (walk_entries t al)"
  shows "\<exists>q qs. q \<in> fst ` set al \<and> components (fst x) = components t @ q # qs"
proof -
  from walk_sound_aux(2) [of al] assms obtain q m qs es' where m: "map_of al q = Some m"
    and l: "descend m qs = Some (Dir es')"
    and x: "x = (foldl os_path_join (os_path_join t q) qs, dirnames es', filenames es')"
    by blast
  from wf_entries_map_of [OF assms(1) m] have wfm: "wf_node m" and vq: "valid_name q"
    by simp_all
  from wf_descend [OF wfm l] have "\<forall>q \<in> set qs. valid_name q" by simp
  then have "components (fst x) = components t @ q # qs"
    unfolding x by (simp add: components_foldl_join components_join [OF vq])
  moreover from m have "q \<in> fst ` set al" using map_of_eq_None_iff [of al q] by simp
  ultimately show ?thesis by blast
qed

lemma walk_distinct_aux:
  "wf_node n \<longrightarrow> (\<forall>t. distinct (map fst (walk_node t (Some n))))"
  "wf_entries al \<and> distinct (map fst al) \<longrightarrow> (\<forall>t. distinct (map fst (walk_entries t al)))"
proof (induction n and al rule: wf_node_wf_entries.induct)
  case 1
  show ?case by simp
next
  case 2
  show ?case by simp
next
  case 3
  show ?case by simp
next
  case 4
  show ?case by simp
next
  case (5 n)
  show ?case by simp
next
  case (6 al)
  show ?case
  proof (intro impI allI)
    fix t assume wf: "wf_node (Dir al)"
    then have wfal: "wf_entries al" "distinct (map fst al)" by simp_all
    with 6 have d: "distinct (map fst (walk_entries t al))" by blast
    have "t \<notin> fst ` set (walk_entries t al)"
    proof
      assume "t \<in> fst ` set (walk_entries t al)"
      then obtain x where "x \<in> set (walk_entries t al)" and "fst x = t" by auto
      with walk_entries_roots [OF wfal] obtain q qs where
        "components t = components t @ q # qs" by metis
      then show False by simp
    qed
    with d show "distinct (map fst (walk_node t (Some (Dir al))))" by simp
  qed
next
  case 7
  show ?case by simp
next
  case (8 e al)
  show ?case
  proof (intro impI allI)
    fix t assume wf: "wf_entries (e # al) \<and> distinct (map fst (e # al))"
    then have ve: "valid_name (fst e)" and wfe: "wf_node (snd e)"
      and wfal: "wf_entries al" "distinct (map fst al)"
      and notin: "fst e \<notin> fst ` set al" by auto
    from "8.IH"(1) wfe
    have d1: "distinct (map fst (walk_node (os_path_join t (fst e)) (Some (snd e))))"
      by blast
    from "8.IH"(2) wfal have d2: "distinct (map fst (walk_entries t al))" by blast
    have disj: "fst ` set (walk_node (os_path_join t (fst e)) (Some (snd e)))
                  \<inter> fst ` set (walk_entries t al) = {}"
    proof (rule equals0I)
      fix r
      assume "r \<in> fst ` set (walk_node (os_path_join t (fst e)) (Some (snd e)))
                  \<inter> fst ` set (walk_entries t al)"
      then have "r \<in> fst ` set (walk_node (os_path_join t (fst e)) (Some (snd e)))"
        and "r \<in> fst ` set (walk_entries t al)" by simp_all
      then obtain x y where x: "x \<in> set (walk_node (os_path_join t (fst e)) (Some (snd e)))"
        and y: "y \<in> set (walk_entries t al)" and eq: "fst x = fst y" by blast
      from walk_roots [OF wfe x] obtain qs where
        "components (fst x) = components (os_path_join t (fst e)) @ qs" by blast
      then have cx: "components (fst x) = components t @ fst e # qs"
        by (simp add: components_join [OF ve])
      from walk_entries_roots [OF wfal y] obtain q qs' where q: "q \<in> fst ` set al"
        and cy: "components (fst y) = components t @ q # qs'" by blast
      from cx cy eq have "fst e = q" by simp
      with q notin show False by simp
    qed
    from d1 d2 disj show "distinct (map fst (walk_entries t (e # al)))"
      by (simp add: walk_entries_split del: walk_entries.simps)
  qed
qed

lemma distinct_filenames: "distinct (map fst es) \<Longrightarrow> distinct (filenames es)"
  by (simp add: filenames_def distinct_map_filter)

lemma sources_in_distinct:
  "distinct (map fst w) \<Longrightarrow> \<forall>x \<in> set w. distinct (snd (snd x)) \<Longrightarrow> distinct (sources_in w)"
proof (induction w)
  case Nil
  then show ?case by simp
next
  case (Cons x w)
  obtain r ds fl where x: "x = (r, ds, fl)" by (cases x)
  from Cons.prems have rn: "r \<notin> fst ` set w" and dfl: "distinct fl"
    and dw: "distinct (map fst w)" and rest: "\<forall>x \<in> set w. distinct (snd (snd x))"
    by (simp_all add: x)
  have d1: "distinct (map (\<lambda>f. (r, f)) (filter (\<lambda>f. endswith f ''.c'') fl))"
    using dfl by (simp add: distinct_map inj_on_def)
  have d2: "distinct (sources_in w)" using Cons.IH [OF dw rest] .
  have "set (map (\<lambda>f. (r, f)) (filter (\<lambda>f. endswith f ''.c'') fl)) \<inter> set (sources_in w) = {}"
  proof (rule equals0I)
    fix y
    assume "y \<in> set (map (\<lambda>f. (r, f)) (filter (\<lambda>f. endswith f ''.c'') fl)) \<inter> set (sources_in w)"
    then have "y \<in> set (sources_in w)" and "fst y = r" by auto
    then have "(r, snd y) \<in> set (sources_in w)" by auto
    then obtain ds' fl' where "(r, ds', fl') \<in> set w" unfolding sources_in_iff by blast
    then have "r \<in> fst ` set w" by force
    with rn show False by simp
  qed
  with d1 d2 show ?case by (simp add: x sources_in_Cons)
qed

lemma getSources_distinct:
  assumes "wf_node fs"
  shows "distinct (getSources p fs)"
proof (cases "\<exists>al. resolve fs (getSourceDir p) = Some (Dir al)")
  case False
  then show ?thesis using getSources_not_Dir by simp
next
  case True
  then obtain al where res: "resolve fs (getSourceDir p) = Some (Dir al)" by blast
  then have l: "lookup fs (components (getSourceDir p)) = Some (Dir al)"
    by (simp add: resolve_def split: if_splits)
  from wf_lookup [OF assms l] have wfn: "wf_node (Dir al)" by simp
  have "distinct (map fst (walk_node (getSourceDir p) (Some (Dir al))))"
    using walk_distinct_aux(1) [of "Dir al"] wfn by blast
  then have d: "distinct (map fst (walk (getSourceDir p) al))" by simp
  have "\<forall>x \<in> set (walk (getSourceDir p) al). distinct (snd (snd x))"
  proof
    fix x assume "x \<in> set (walk (getSourceDir p) al)"
    then obtain qs es where le: "descend (Dir al) qs = Some (Dir es)"
      and x: "x = (foldl os_path_join (getSourceDir p) qs, dirnames es, filenames es)"
      unfolding walk_set [OF wfn] by blast
    from wf_descend [OF wfn le] have "distinct (map fst es)" by simp
    then show "distinct (snd (snd x))" by (simp add: x distinct_filenames)
  qed
  with d show ?thesis
    unfolding getSources_resolved [OF res] by (rule sources_in_distinct)
qed


section \<open>The build as a whole\<close>

lemma build_compile_all:
  assumes "env ''EMCC_DIR'' = Some emcc_dir" and "emcc_dir \<noteq> []"
    and "mkdir_p deny fs (getOutputDir p) = (None, fs1)"
  shows "failure (build p env proc deny fs) =
           fst (compile_all proc (os_path_join emcc_dir ''emcc'') (getOutputDir p) [] (getSources p fs))
       \<and> invoked (build p env proc deny fs) =
           snd (compile_all proc (os_path_join emcc_dir ''emcc'') (getOutputDir p) [] (getSources p fs))
       \<and> fs_after (build p env proc deny fs) = fs1"
  using assms mkdir_p_getSources [of p deny fs "getOutputDir p"]
  by (simp add: build_def Let_def)

lemma build_all_succeed:
  assumes "env ''EMCC_DIR'' = Some emcc_dir" and "emcc_dir \<noteq> []"
    and "mkdir_p deny fs (getOutputDir p) = (None, fs1)"
    and "cmds = map (\<lambda>src. [os_path_join emcc_dir ''emcc'', ''-Os'',
                           os_path_join (fst src) (snd src), ''-o'',
                           os_path_join (getOutputDir p)
                             (take (length (snd src) - 2) (snd src) @ ''.js'')])
                    (getSources p fs)"
    and "\<forall>i < length cmds. proc (take i cmds) (cmds ! i) = 0"
  shows "invoked (build p env proc deny fs) = cmds \<and> failure (build p env proc deny fs) = None"
proof -
  have c: "\<forall>src \<in> set (getSources p fs). endswith (snd src) ''.c''"
    using getSources_endswith by blast
  from assms(5) have z: "\<forall>i < length cmds. proc ([] @ take i cmds) (cmds ! i) = 0" by simp
  from compile_all_success [OF c assms(4) z]
  show ?thesis using build_compile_all [where env = env and proc = proc and deny = deny, OF assms(1-3)] by simp
qed

lemma build_first_failure:
  assumes "env ''EMCC_DIR'' = Some emcc_dir" and "emcc_dir \<noteq> []"
    and "mkdir_p deny fs (getOutputDir p) = (None, fs1)"
    and "cmds = map (\<lambda>src. [os_path_join emcc_dir ''emcc'', ''-Os'',
                           os_path_join (fst src) (snd src), ''-o'',
                           os_path_join (getOutputDir p)
                             (take (length (snd src) - 2) (snd src) @ ''.js'')])
                    (getSources p fs)"
    and "k < length cmds"
    and "\<forall>i < k. proc (take i cmds) (cmds ! i) = 0"
    and "proc (take k cmds) (cmds ! k) \<noteq> 0"
  shows "invoked (build p env proc deny fs) = take (Suc k) cmds
       \<and> failure (build p env proc deny fs)
           = Some (CompileFailure (cmds ! k) (proc (take k cmds) (cmds ! k)))"
proof -
  have c: "\<forall>src \<in> set (getSources p fs). endswith (snd src) ''.c''"
    using getSources_endswith by blast
  from assms(6) have z: "\<forall>i < k. proc ([] @ take i cmds) (cmds ! i) = 0" by simp
  from assms(7) have nz: "proc ([] @ take k cmds) (cmds ! k) \<noteq> 0" by simp
  from compile_all_failure [OF c assms(4) assms(5) z nz]
  show ?thesis using build_compile_all [where env = env and proc = proc and deny = deny, OF assms(1-3)] by simp
qed

lemma build_prefix:
  assumes "env ''EMCC_DIR'' = Some emcc_dir" and "emcc_dir \<noteq> []"
    and "mkdir_p deny fs (getOutputDir p) = (None, fs1)"
    and "cmds = map (\<lambda>src. [os_path_join emcc_dir ''emcc'', ''-Os'',
                           os_path_join (fst src) (snd src), ''-o'',
                           os_path_join (getOutputDir p)
                             (take (length (snd src) - 2) (snd src) @ ''.js'')])
                    (getSources p fs)"
  shows "prefix (invoked (build p env proc deny fs)) cmds"
proof -
  have c: "\<forall>src \<in> set (getSources p fs). endswith (snd src) ''.c''"
    using getSources_endswith by blast
  from compile_all_prefix [OF c, of proc "os_path_join emcc_dir ''emcc''" "getOutputDir p" "[]"]
  obtain k where "snd (compile_all proc (os_path_join emcc_dir ''emcc'') (getOutputDir p) []
       (getSources p fs)) = take k cmds"
    unfolding assms(4) by auto
  then have "invoked (build p env proc deny fs) = take k cmds"
    using build_compile_all [where env = env and proc = proc and deny = deny, OF assms(1-3)] by simp
  then show ?thesis by (simp add: take_is_prefix)
qed

section \<open>Order of the steps of build\<close>

text \<open>
  C6, as stated, fails: \<open>build\<close> calls \<open>mkdir_p\<close> on the output directory before
  it reads \<open>EMCC_DIR\<close>. On an empty file system and with \<open>EMCC_DIR\<close> unset the build
  aborts for the missing variable, and by then the output directory, which did not
  exist, has been created: the file system has changed.
\<close>

theorem build_env_before_mkdir_counterexample:
  "\<not> os_path_isdir (Dir []) (getOutputDir \<lparr>dir = ''/g'', name = ''wasm'', subDir = ''c'', output_base = ''/mxbuild''\<rparr>)
   \<and> failure (build \<lparr>dir = ''/g'', name = ''wasm'', subDir = ''c'', output_base = ''/mxbuild''\<rparr>
                 Map.empty (\<lambda>hist cmd. 0) (\<lambda>path. None) (Dir []))
       = Some (Abort no_emcc_dir_message)
   \<and> fs_after (build \<lparr>dir = ''/g'', name = ''wasm'', subDir = ''c'', output_base = ''/mxbuild''\<rparr>
                 Map.empty (\<lambda>hist cmd. 0) (\<lambda>path. None) (Dir []))
       = Dir [(''mxbuild'', Dir [(''wasm'', Dir [])])]
   \<and> fs_after (build \<lparr>dir = ''/g'', name = ''wasm'', subDir = ''c'', output_base = ''/mxbuild''\<rparr>
                 Map.empty (\<lambda>hist cmd. 0) (\<lambda>path. None) (Dir []))
       \<noteq> Dir []"
  by code_simp

text \<open>
  C6, amended. \<open>build\<close> ensures the output directory first and resolves \<open>EMCC_DIR\<close>
  after it. When \<open>EMCC_DIR\<close> is unset or empty and \<open>mkdir_p\<close> of the output directory
  has succeeded, the build aborts for the missing variable with the output directory in
  place: the file system is the one \<open>mkdir_p\<close> left, the output directory is a
  directory in it, and it is the file system from before the build exactly when the
  output directory was a directory already.
\<close>

theorem build_mkdir_first:
  assumes "env ''EMCC_DIR'' = None \<or> env ''EMCC_DIR'' = Some []"
    and "mkdir_p deny fs (getOutputDir p) = (None, fs')"
  shows "failure (build p env proc deny fs) = Some (Abort no_emcc_dir_message)
         \<and> fs_after (build p env proc deny fs) = fs'
         \<and> os_path_isdir fs' (getOutputDir p)
         \<and> (fs' = fs \<longleftrightarrow> os_path_isdir fs (getOutputDir p))"
  using assms mkdir_p_isdir [OF assms(2)] mkdir_p_unchanged_iff [OF assms(2)]
  by (auto simp: build_def)

lemma mkdir_p_example_fresh:
  "mkdir_p (\<lambda>path. None) (Dir [(''w'', Dir [])])
     (getOutputDir \<lparr>dir = ''/w'', name = ''bench'', subDir = ''c'', output_base = ''/w/mxbuild''\<rparr>)
   = (None, Dir [(''w'', Dir [(''mxbuild'', Dir [(''bench'', Dir [])])])])"
  by code_simp

lemma isdir_example_fresh:
  "\<not> os_path_isdir (Dir [(''w'', Dir [])])
     (getOutputDir \<lparr>dir = ''/w'', name = ''bench'', subDir = ''c'', output_base = ''/w/mxbuild''\<rparr>)"
  by code_simp

theorem build_mkdir_first_witness:
  "(Map.empty :: environment) ''EMCC_DIR'' = None
   \<and> mkdir_p (\<lambda>path. None) (Dir [(''w'', Dir [])])
       (getOutputDir \<lparr>dir = ''/w'', name = ''bench'', subDir = ''c'', output_base = ''/w/mxbuild''\<rparr>)
     = (None, Dir [(''w'', Dir [(''mxbuild'', Dir [(''bench'', Dir [])])])])
   \<and> failure (build \<lparr>dir = ''/w'', name = ''bench'', subDir = ''c'', output_base = ''/w/mxbuild''\<rparr>
        Map.empty (\<lambda>hist cmd. 0) (\<lambda>path. None) (Dir [(''w'', Dir [])]))
     = Some (Abort no_emcc_dir_message)
   \<and> fs_after (build \<lparr>dir = ''/w'', name = ''bench'', subDir = ''c'', output_base = ''/w/mxbuild''\<rparr>
        Map.empty (\<lambda>hist cmd. 0) (\<lambda>path. None) (Dir [(''w'', Dir [])]))
     = Dir [(''w'', Dir [(''mxbuild'', Dir [(''bench'', Dir [])])])]
   \<and> os_path_isdir (Dir [(''w'', Dir [(''mxbuild'', Dir [(''bench'', Dir [])])])])
       (getOutputDir \<lparr>dir = ''/w'', name = ''bench'', subDir = ''c'', output_base = ''/w/mxbuild''\<rparr>)
   \<and> Dir [(''w'', Dir [(''mxbuild'', Dir [(''bench'', Dir [])])])] \<noteq> Dir [(''w'', Dir [])]"
proof -
  have e: "(Map.empty :: environment) ''EMCC_DIR'' = None \<or> (Map.empty :: environment) ''EMCC_DIR'' = Some []"
    by simp
  from build_mkdir_first [where env = Map.empty and proc = "\<lambda>hist cmd. 0",
      OF e mkdir_p_example_fresh] isdir_example_fresh mkdir_p_example_fresh
  show ?thesis by simp
qed

text \<open>
  C7, as stated, fails: when \<open>EMCC_DIR\<close> is unset and the path of the output directory
  is taken by a file, \<open>mkdir_p\<close> raises first, and the build ends with that
  \<open>OSError\<close>, not with the abort for the missing variable.
\<close>

theorem build_without_emcc_dir_counterexample:
  "(Map.empty :: environment) ''EMCC_DIR'' = None
   \<and> failure (build \<lparr>dir = ''/g'', name = ''wasm'', subDir = ''c'', output_base = ''/mxbuild''\<rparr>
                 Map.empty (\<lambda>hist cmd. 0) (\<lambda>path. None)
                 (Dir [(''mxbuild'', Dir [(''wasm'', File)])]))
       = Some (OSError EEXIST)
   \<and> Some (OSError EEXIST) \<noteq> Some (Abort no_emcc_dir_message)"
  by code_simp

text \<open>
  C7, amended. When \<open>EMCC_DIR\<close> is unset or empty, \<open>build\<close> fails and has run no
  command. The failure is the abort for the missing variable exactly when \<open>mkdir_p\<close>
  of the output directory succeeded; when \<open>mkdir_p\<close> failed, it is the error of
  \<open>mkdir_p\<close>.
\<close>

theorem build_without_emcc_dir:
  assumes "env ''EMCC_DIR'' = None \<or> env ''EMCC_DIR'' = Some []"
  shows "invoked (build p env proc deny fs) = []
         \<and> failure (build p env proc deny fs) \<noteq> None
         \<and> (failure (build p env proc deny fs) = Some (Abort no_emcc_dir_message)
              \<longleftrightarrow> fst (mkdir_p deny fs (getOutputDir p)) = None)
         \<and> (\<forall>e. fst (mkdir_p deny fs (getOutputDir p)) = Some e \<longrightarrow>
               failure (build p env proc deny fs) = Some e)"
proof (cases "mkdir_p deny fs (getOutputDir p)")
  case (Pair r fs1)
  show ?thesis
  proof (cases r)
    case None
    with Pair assms show ?thesis by (auto simp: build_def)
  next
    case (Some e)
    with Pair have "fst (mkdir_p deny fs (getOutputDir p)) = Some e" by simp
    from mkdir_p_failure_cases [OF this] obtain n where "e = OSError n" by blast
    with Pair Some assms show ?thesis by (auto simp: build_def)
  qed
qed

lemma mkdir_p_example_exists:
  "mkdir_p (\<lambda>path. None) (Dir [(''out'', Dir [(''bench'', Dir [(''old.wasm'', File)])])])
     (getOutputDir \<lparr>dir = ''/w'', name = ''bench'', subDir = ''c'', output_base = ''/out''\<rparr>)
   = (None, Dir [(''out'', Dir [(''bench'', Dir [(''old.wasm'', File)])])])"
  by code_simp

lemma mkdir_p_example_file:
  "mkdir_p (\<lambda>path. None) (Dir [(''out'', File)])
     (getOutputDir \<lparr>dir = ''/w'', name = ''bench'', subDir = ''c'', output_base = ''/out''\<rparr>)
   = (Some (OSError ENOTDIR), Dir [(''out'', File)])"
  by code_simp

theorem build_without_emcc_dir_witness:
  "([''EMCC_DIR'' \<mapsto> ''''] :: environment) ''EMCC_DIR'' = Some []
   \<and> invoked (build \<lparr>dir = ''/w'', name = ''bench'', subDir = ''c'', output_base = ''/out''\<rparr>
        [''EMCC_DIR'' \<mapsto> ''''] (\<lambda>hist cmd. 0) (\<lambda>path. None)
        (Dir [(''out'', Dir [(''bench'', Dir [(''old.wasm'', File)])])])) = []
   \<and> failure (build \<lparr>dir = ''/w'', name = ''bench'', subDir = ''c'', output_base = ''/out''\<rparr>
        [''EMCC_DIR'' \<mapsto> ''''] (\<lambda>hist cmd. 0) (\<lambda>path. None)
        (Dir [(''out'', Dir [(''bench'', Dir [(''old.wasm'', File)])])]))
      = Some (Abort no_emcc_dir_message)
   \<and> (Map.empty :: environment) ''EMCC_DIR'' = None
   \<and> invoked (build \<lparr>dir = ''/w'', name = ''bench'', subDir = ''c'', output_base = ''/out''\<rparr>
        Map.empty (\<lambda>hist cmd. 0) (\<lambda>path. None) (Dir [(''out'', File)])) = []
   \<and> failure (build \<lparr>dir = ''/w'', name = ''bench'', subDir = ''c'', output_base = ''/out''\<rparr>
        Map.empty (\<lambda>hist cmd. 0) (\<lambda>path. None) (Dir [(''out'', File)]))
      = Some (OSError ENOTDIR)"
  using build_without_emcc_dir [of "[''EMCC_DIR'' \<mapsto> '''']"
      "\<lparr>dir = ''/w'', name = ''bench'', subDir = ''c'', output_base = ''/out''\<rparr>"
      "\<lambda>hist cmd. 0" "\<lambda>path. None" "Dir [(''out'', Dir [(''bench'', Dir [(''old.wasm'', File)])])]"]
    build_without_emcc_dir [of "Map.empty"
      "\<lparr>dir = ''/w'', name = ''bench'', subDir = ''c'', output_base = ''/out''\<rparr>"
      "\<lambda>hist cmd. 0" "\<lambda>path. None" "Dir [(''out'', File)]"]
  unfolding mkdir_p_example_exists mkdir_p_example_file
  by simp

section \<open>The compiler invocations\<close>

text \<open>
  C1, as stated, fails: with \<open>EMCC_DIR\<close> set and the two source units \<open>x.c\<close> and
  \<open>y.c\<close>, a compiler that exits with status 1 is run on \<open>x.c\<close> and the build aborts;
  no command is run for \<open>y.c\<close>.
\<close>

theorem build_once_per_source_counterexample:
  "[''EMCC_DIR'' \<mapsto> ''/emsdk''] ''EMCC_DIR'' = Some ''/emsdk''
   \<and> getSources \<lparr>dir = ''/g'', name = ''wasm'', subDir = ''c'', output_base = ''/mxbuild''\<rparr>
        (Dir [(''g'', Dir [(''src'', Dir [(''wasm'', Dir [(''c'',
           Dir [(''x.c'', File), (''y.c'', File)])])])])])
      = [(''/g/src/wasm/c'', ''x.c''), (''/g/src/wasm/c'', ''y.c'')]
   \<and> invoked (build \<lparr>dir = ''/g'', name = ''wasm'', subDir = ''c'', output_base = ''/mxbuild''\<rparr>
        [''EMCC_DIR'' \<mapsto> ''/emsdk''] (\<lambda>hist cmd. 1) (\<lambda>path. None)
        (Dir [(''g'', Dir [(''src'', Dir [(''wasm'', Dir [(''c'',
           Dir [(''x.c'', File), (''y.c'', File)])])])])]))
      = [[''/emsdk/emcc'', ''-Os'', ''/g/src/wasm/c/x.c'', ''-o'', ''/mxbuild/wasm/x.js'']]"
  by code_simp

text \<open>
  C1, amended. Let \<open>EMCC_DIR\<close> be set to a non-empty value and let \<open>mkdir_p\<close> of the
  output directory succeed, and let \<open>cmds\<close> be the list, in the order of the
  enumeration, of the command lines
  \<open>[<emccDir>/emcc, -Os, <root>/<filename>, -o, <outputDir>/<filename without .c>.js]\<close>
  of the source units. The commands \<open>build\<close> runs, one after the other, are a prefix
  of \<open>cmds\<close>. When every run exits with status 0 they are all of \<open>cmds\<close>, one command
  for each source unit, and the build succeeds. When the run of the command at position
  \<open>k\<close> is the first that exits with another status, they are the first \<open>k + 1\<close>
  commands, and the build aborts with the failure of that command.
\<close>

theorem build_invokes_in_order:
  assumes "env ''EMCC_DIR'' = Some emcc_dir" and "emcc_dir \<noteq> []"
    and "mkdir_p deny fs (getOutputDir p) = (None, fs1)"
    and "cmds = map (\<lambda>src. [os_path_join emcc_dir ''emcc'', ''-Os'',
                           os_path_join (fst src) (snd src), ''-o'',
                           os_path_join (getOutputDir p)
                             (take (length (snd src) - 2) (snd src) @ ''.js'')])
                    (getSources p fs)"
  shows "prefix (invoked (build p env proc deny fs)) cmds
     \<and> ((\<forall>i < length cmds. proc (take i cmds) (cmds ! i) = 0) \<longrightarrow>
            invoked (build p env proc deny fs) = cmds \<and> failure (build p env proc deny fs) = None)
     \<and> (\<forall>k < length cmds.
            (\<forall>i < k. proc (take i cmds) (cmds ! i) = 0) \<and> proc (take k cmds) (cmds ! k) \<noteq> 0 \<longrightarrow>
            invoked (build p env proc deny fs) = take (Suc k) cmds
            \<and> failure (build p env proc deny fs)
                = Some (CompileFailure (cmds ! k) (proc (take k cmds) (cmds ! k))))"
  using build_prefix [where env = env and proc = proc and deny = deny, OF assms]
    build_all_succeed [where env = env and proc = proc and deny = deny, OF assms]
    build_first_failure [where env = env and proc = proc and deny = deny, OF assms]
  by blast

lemma build_example_sources:
  "getSources \<lparr>dir = ''/w'', name = ''bench'', subDir = ''c'', output_base = ''/out''\<rparr>
     (Dir [(''w'', Dir [(''src'', Dir [(''bench'', Dir [(''c'',
        Dir [(''x.c'', File), (''y.c'', File)])])])])])
   = [(''/w/src/bench/c'', ''x.c''), (''/w/src/bench/c'', ''y.c'')]"
  by code_simp

lemma build_example_mkdir:
  "mkdir_p (\<lambda>path. None) (Dir [(''w'', Dir [(''src'', Dir [(''bench'', Dir [(''c'',
        Dir [(''x.c'', File), (''y.c'', File)])])])])])
     (getOutputDir \<lparr>dir = ''/w'', name = ''bench'', subDir = ''c'', output_base = ''/out''\<rparr>)
   = (None, Dir [(''w'', Dir [(''src'', Dir [(''bench'', Dir [(''c'',
        Dir [(''x.c'', File), (''y.c'', File)])])])]), (''out'', Dir [(''bench'', Dir [])])])"
  by code_simp

lemma build_example_cmds:
  "[[''/emsdk/emcc'', ''-Os'', ''/w/src/bench/c/x.c'', ''-o'', ''/out/bench/x.js''],
    [''/emsdk/emcc'', ''-Os'', ''/w/src/bench/c/y.c'', ''-o'', ''/out/bench/y.js'']]
   = map (\<lambda>src. [os_path_join ''/emsdk'' ''emcc'', ''-Os'',
                   os_path_join (fst src) (snd src), ''-o'',
                   os_path_join (getOutputDir \<lparr>dir = ''/w'', name = ''bench'', subDir = ''c'', output_base = ''/out''\<rparr>)
                     (take (length (snd src) - 2) (snd src) @ ''.js'')])
         (getSources \<lparr>dir = ''/w'', name = ''bench'', subDir = ''c'', output_base = ''/out''\<rparr>
            (Dir [(''w'', Dir [(''src'', Dir [(''bench'', Dir [(''c'',
               Dir [(''x.c'', File), (''y.c'', File)])])])])]))"
  unfolding build_example_sources by code_simp

theorem build_invokes_in_order_witness:
  "invoked (build \<lparr>dir = ''/w'', name = ''bench'', subDir = ''c'', output_base = ''/out''\<rparr>
        [''EMCC_DIR'' \<mapsto> ''/emsdk''] (\<lambda>hist cmd. 0) (\<lambda>path. None)
        (Dir [(''w'', Dir [(''src'', Dir [(''bench'', Dir [(''c'',
           Dir [(''x.c'', File), (''y.c'', File)])])])])]))
     = [[''/emsdk/emcc'', ''-Os'', ''/w/src/bench/c/x.c'', ''-o'', ''/out/bench/x.js''],
        [''/emsdk/emcc'', ''-Os'', ''/w/src/bench/c/y.c'', ''-o'', ''/out/bench/y.js'']]
   \<and> failure (build \<lparr>dir = ''/w'', name = ''bench'', subDir = ''c'', output_base = ''/out''\<rparr>
        [''EMCC_DIR'' \<mapsto> ''/emsdk''] (\<lambda>hist cmd. 0) (\<lambda>path. None)
        (Dir [(''w'', Dir [(''src'', Dir [(''bench'', Dir [(''c'',
           Dir [(''x.c'', File), (''y.c'', File)])])])])])) = None
   \<and> invoked (build \<lparr>dir = ''/w'', name = ''bench'', subDir = ''c'', output_base = ''/out''\<rparr>
        [''EMCC_DIR'' \<mapsto> ''/emsdk''] (\<lambda>hist cmd. if hist = [] then 0 else 2) (\<lambda>path. None)
        (Dir [(''w'', Dir [(''src'', Dir [(''bench'', Dir [(''c'',
           Dir [(''x.c'', File), (''y.c'', File)])])])])]))
     = [[''/emsdk/emcc'', ''-Os'', ''/w/src/bench/c/x.c'', ''-o'', ''/out/bench/x.js''],
        [''/emsdk/emcc'', ''-Os'', ''/w/src/bench/c/y.c'', ''-o'', ''/out/bench/y.js'']]
   \<and> failure (build \<lparr>dir = ''/w'', name = ''bench'', subDir = ''c'', output_base = ''/out''\<rparr>
        [''EMCC_DIR'' \<mapsto> ''/emsdk''] (\<lambda>hist cmd. if hist = [] then 0 else 2) (\<lambda>path. None)
        (Dir [(''w'', Dir [(''src'', Dir [(''bench'', Dir [(''c'',
           Dir [(''x.c'', File), (''y.c'', File)])])])])]))
     = Some (CompileFailure
         [''/emsdk/emcc'', ''-Os'', ''/w/src/bench/c/y.c'', ''-o'', ''/out/bench/y.js''] 2)"
proof -
  have e: "[''EMCC_DIR'' \<mapsto> ''/emsdk''] ''EMCC_DIR'' = Some ''/emsdk''" by simp
  have ne: "''/emsdk'' \<noteq> []" by simp
  note ok = build_invokes_in_order [where env = "[''EMCC_DIR'' \<mapsto> ''/emsdk'']"
      and proc = "\<lambda>hist cmd. 0"
      and deny = "\<lambda>path. None", OF e ne build_example_mkdir build_example_cmds]
  note ko = build_invokes_in_order [where env = "[''EMCC_DIR'' \<mapsto> ''/emsdk'']"
      and proc = "\<lambda>hist cmd. if hist = [] then 0 else 2"
      and deny = "\<lambda>path. None", OF e ne build_example_mkdir build_example_cmds]
  from ok have a: "invoked (build \<lparr>dir = ''/w'', name = ''bench'', subDir = ''c'', output_base = ''/out''\<rparr>
        [''EMCC_DIR'' \<mapsto> ''/emsdk''] (\<lambda>hist cmd. 0) (\<lambda>path. None)
        (Dir [(''w'', Dir [(''src'', Dir [(''bench'', Dir [(''c'',
           Dir [(''x.c'', File), (''y.c'', File)])])])])]))
     = [[''/emsdk/emcc'', ''-Os'', ''/w/src/bench/c/x.c'', ''-o'', ''/out/bench/x.js''],
        [''/emsdk/emcc'', ''-Os'', ''/w/src/bench/c/y.c'', ''-o'', ''/out/bench/y.js'']]
   \<and> failure (build \<lparr>dir = ''/w'', name = ''bench'', subDir = ''c'', output_base = ''/out''\<rparr>
        [''EMCC_DIR'' \<mapsto> ''/emsdk''] (\<lambda>hist cmd. 0) (\<lambda>path. None)
        (Dir [(''w'', Dir [(''src'', Dir [(''bench'', Dir [(''c'',
           Dir [(''x.c'', File), (''y.c'', File)])])])])])) = None"
    by simp
  from ko [THEN conjunct2, THEN conjunct2, rule_format, of 1]
  have b: "invoked (build \<lparr>dir = ''/w'', name = ''bench'', subDir = ''c'', output_base = ''/out''\<rparr>
        [''EMCC_DIR'' \<mapsto> ''/emsdk''] (\<lambda>hist cmd. if hist = [] then 0 else 2) (\<lambda>path. None)
        (Dir [(''w'', Dir [(''src'', Dir [(''bench'', Dir [(''c'',
           Dir [(''x.c'', File), (''y.c'', File)])])])])]))
     = [[''/emsdk/emcc'', ''-Os'', ''/w/src/bench/c/x.c'', ''-o'', ''/out/bench/x.js''],
        [''/emsdk/emcc'', ''-Os'', ''/w/src/bench/c/y.c'', ''-o'', ''/out/bench/y.js'']]
   \<and> failure (build \<lparr>dir = ''/w'', name = ''bench'', subDir = ''c'', output_base = ''/out''\<rparr>
        [''EMCC_DIR'' \<mapsto> ''/emsdk''] (\<lambda>hist cmd. if hist = [] then 0 else 2) (\<lambda>path. None)
        (Dir [(''w'', Dir [(''src'', Dir [(''bench'', Dir [(''c'',
           Dir [(''x.c'', File), (''y.c'', File)])])])])]))
     = Some (CompileFailure
         [''/emsdk/emcc'', ''-Os'', ''/w/src/bench/c/y.c'', ''-o'', ''/out/bench/y.js''] 2)"
    by simp
  from a b show ?thesis by simp
qed

section \<open>What the enumeration yields\<close>

text \<open>
  C8, as stated, fails: \<open>getSources\<close> takes every name that \<open>os.walk\<close> lists under
  \<open>files\<close>, and does not go into a link to a directory. In a source directory that
  holds the regular file \<open>a.c\<close>, the FIFO \<open>p.c\<close>, the dangling link \<open>z.c\<close> and a link
  \<open>lib\<close> to a directory with the regular file \<open>hidden.c\<close>, it yields \<open>p.c\<close> and
  \<open>z.c\<close>, which are not regular files, and it does not yield \<open>lib/hidden.c\<close>, which
  is one.
\<close>

theorem getSources_regular_files_counterexample:
  "getSources \<lparr>dir = ''/g'', name = ''wasm'', subDir = ''c'', output_base = ''/mxbuild''\<rparr>
     (Dir [(''g'', Dir [(''src'', Dir [(''wasm'', Dir [(''c'',
        Dir [(''a.c'', File), (''p.c'', Fifo), (''z.c'', Symlink None),
             (''lib'', Symlink (Some (Dir [(''hidden.c'', File)])))])])])])])
     = [(''/g/src/wasm/c'', ''a.c''), (''/g/src/wasm/c'', ''p.c''), (''/g/src/wasm/c'', ''z.c'')]
   \<and> resolve (Dir [(''g'', Dir [(''src'', Dir [(''wasm'', Dir [(''c'',
        Dir [(''a.c'', File), (''p.c'', Fifo), (''z.c'', Symlink None),
             (''lib'', Symlink (Some (Dir [(''hidden.c'', File)])))])])])])])
        ''/g/src/wasm/c/p.c'' = Some Fifo
   \<and> resolve (Dir [(''g'', Dir [(''src'', Dir [(''wasm'', Dir [(''c'',
        Dir [(''a.c'', File), (''p.c'', Fifo), (''z.c'', Symlink None),
             (''lib'', Symlink (Some (Dir [(''hidden.c'', File)])))])])])])])
        ''/g/src/wasm/c/z.c'' = None
   \<and> resolve (Dir [(''g'', Dir [(''src'', Dir [(''wasm'', Dir [(''c'',
        Dir [(''a.c'', File), (''p.c'', Fifo), (''z.c'', Symlink None),
             (''lib'', Symlink (Some (Dir [(''hidden.c'', File)])))])])])])])
        ''/g/src/wasm/c/lib/hidden.c'' = Some File"
  by code_simp

text \<open>
  C8, amended. In a well-formed file system, the pairs that \<open>getSources\<close> yields are
  exactly the pairs of a directory path and a name such that the name ends in \<open>.c\<close>,
  the path is the source directory joined with the names of a chain of subdirectories of
  any length, none of them a link or locked, and that directory has an entry of that
  name which is not a directory: a regular file, a special file, a link to one of these,
  or a dangling link. No pair is yielded twice; the first component of each pair is a
  directory of the file system, and joined with the second it is not one. A name that
  does not end in \<open>.c\<close> is in no pair, and neither is an entry below a link to a
  directory or below a locked directory.
\<close>

theorem getSources_exact:
  assumes "wf_node fs"
  shows "set (getSources p fs) =
           {(r, f). endswith f ''.c'' \<and>
              (\<exists>root qs n. resolve fs (getSourceDir p) = Some root
                 \<and> r = foldl os_path_join (getSourceDir p) qs
                 \<and> descend root (qs @ [f]) = Some n \<and> \<not> is_dir n)}
         \<and> distinct (getSources p fs)
         \<and> (\<forall>src \<in> set (getSources p fs).
               os_path_isdir fs (fst src)
               \<and> \<not> os_path_isdir fs (os_path_join (fst src) (snd src)))"
proof (intro conjI)
  show "set (getSources p fs) =
           {(r, f). endswith f ''.c'' \<and>
              (\<exists>root qs n. resolve fs (getSourceDir p) = Some root
                 \<and> r = foldl os_path_join (getSourceDir p) qs
                 \<and> descend root (qs @ [f]) = Some n \<and> \<not> is_dir n)}"
  proof (rule set_eqI)
    fix x :: "string \<times> string"
    obtain r f where x: "x = (r, f)" by (cases x)
    show "x \<in> set (getSources p fs) \<longleftrightarrow>
          x \<in> {(r, f). endswith f ''.c'' \<and>
              (\<exists>root qs n. resolve fs (getSourceDir p) = Some root
                 \<and> r = foldl os_path_join (getSourceDir p) qs
                 \<and> descend root (qs @ [f]) = Some n \<and> \<not> is_dir n)}"
      unfolding x using getSources_iff [OF assms, of r f p] by simp
  qed
  show "distinct (getSources p fs)" using assms by (rule getSources_distinct)
  show "\<forall>src \<in> set (getSources p fs).
               os_path_isdir fs (fst src)
               \<and> \<not> os_path_isdir fs (os_path_join (fst src) (snd src))"
    using getSources_paths [OF assms, of _ _ p] by auto
qed

lemma wf_example_tree:
  "wf_node (Dir [(''w'', Dir [(''src'', Dir [(''bench'', Dir [(''c'',
      Dir [(''a.c'', File), (''b'', Dir [(''c.c'', File)]), (''d.h'', File),
           (''q.c'', Fifo), (''ext'', Symlink (Some (Dir [(''e.c'', File)]))),
             (''priv'', Locked)])])])])])"
  by (simp add: valid_name_def)

lemma getSources_example_tree:
  "getSources \<lparr>dir = ''/w'', name = ''bench'', subDir = ''c'', output_base = ''/out''\<rparr>
     (Dir [(''w'', Dir [(''src'', Dir [(''bench'', Dir [(''c'',
        Dir [(''a.c'', File), (''b'', Dir [(''c.c'', File)]), (''d.h'', File),
             (''q.c'', Fifo), (''ext'', Symlink (Some (Dir [(''e.c'', File)]))),
             (''priv'', Locked)])])])])])
   = [(''/w/src/bench/c'', ''a.c''), (''/w/src/bench/c'', ''q.c''),
      (''/w/src/bench/c/b'', ''c.c'')]"
  by code_simp

lemma isdir_example_tree:
  "os_path_isdir (Dir [(''w'', Dir [(''src'', Dir [(''bench'', Dir [(''c'',
        Dir [(''a.c'', File), (''b'', Dir [(''c.c'', File)]), (''d.h'', File),
             (''q.c'', Fifo), (''ext'', Symlink (Some (Dir [(''e.c'', File)]))),
             (''priv'', Locked)])])])])])
     ''/w/src/bench/c/b''"
  by code_simp

theorem getSources_exact_witness:
  "wf_node (Dir [(''w'', Dir [(''src'', Dir [(''bench'', Dir [(''c'',
      Dir [(''a.c'', File), (''b'', Dir [(''c.c'', File)]), (''d.h'', File),
           (''q.c'', Fifo), (''ext'', Symlink (Some (Dir [(''e.c'', File)]))),
             (''priv'', Locked)])])])])])
   \<and> getSources \<lparr>dir = ''/w'', name = ''bench'', subDir = ''c'', output_base = ''/out''\<rparr>
       (Dir [(''w'', Dir [(''src'', Dir [(''bench'', Dir [(''c'',
          Dir [(''a.c'', File), (''b'', Dir [(''c.c'', File)]), (''d.h'', File),
               (''q.c'', Fifo), (''ext'', Symlink (Some (Dir [(''e.c'', File)]))),
             (''priv'', Locked)])])])])])
     = [(''/w/src/bench/c'', ''a.c''), (''/w/src/bench/c'', ''q.c''),
        (''/w/src/bench/c/b'', ''c.c'')]
   \<and> os_path_isdir (Dir [(''w'', Dir [(''src'', Dir [(''bench'', Dir [(''c'',
          Dir [(''a.c'', File), (''b'', Dir [(''c.c'', File)]), (''d.h'', File),
               (''q.c'', Fifo), (''ext'', Symlink (Some (Dir [(''e.c'', File)]))),
             (''priv'', Locked)])])])])])
        ''/w/src/bench/c/b''"
  using getSources_exact [OF wf_example_tree,
      of "\<lparr>dir = ''/w'', name = ''bench'', subDir = ''c'', output_base = ''/out''\<rparr>"]
    wf_example_tree isdir_example_tree
  unfolding getSources_example_tree
  by simp







end
